theory Spec2Isabelle
  imports
    Complex_Main
    "HOL-Library.Char_ord"
    "HOL-Library.List_Lexorder"
    "HOL-Library.Product_Lexorder"
begin

section \<open>Conventions of the embedding\<close>

text \<open>
  The Python sources are embedded function by function.  Python \<^verbatim>\<open>float\<close> values are
  modelled by \<^typ>\<open>real\<close> (exact arithmetic: rounding, infinities and NaN inside the
  comparator are not modelled; where pandas produces NaN as a \<^emph>\<open>missing value\<close> it is a
  constructor of its own).  Strings are \<^typ>\<open>string\<close> and are read as ASCII text.
  Exceptions are values of the type \<open>py_error\<close>; a function that can raise returns
  \<open>py_error + 'a\<close>.
\<close>

datatype py_error = ZeroDivisionError | KeyError | IndexError

definition bind :: "py_error + 'a \<Rightarrow> ('a \<Rightarrow> py_error + 'b) \<Rightarrow> py_error + 'b" where
  "bind m f = (case m of Inl e \<Rightarrow> Inl e | Inr x \<Rightarrow> f x)"

text \<open>Python's \<^verbatim>\<open>a / b\<close> on floats raises when the divisor is zero.\<close>

definition py_div :: "real \<Rightarrow> real \<Rightarrow> py_error + real" where
  "py_div a b = (if b = 0 then Inl ZeroDivisionError else Inr (a / b))"


section \<open>Python strings\<close>

text \<open>
  The string methods the sources call, on ASCII text.  \<^verbatim>\<open>str.isspace\<close> holds of the
  characters 9-13, 28-31 and 32; the regular-expression class \<^verbatim>\<open>\s\<close> is the same set.
\<close>

definition py_isspace :: "char \<Rightarrow> bool" where
  "py_isspace c = (c \<in> set [CHR 0x09, CHR 0x0A, CHR 0x0B, CHR 0x0C, CHR 0x0D,
                            CHR 0x1C, CHR 0x1D, CHR 0x1E, CHR 0x1F, CHR '' ''])"

definition is_digit :: "char \<Rightarrow> bool" where
  "is_digit c = (c \<in> set ''0123456789'')"

definition lower_char :: "char \<Rightarrow> char" where
  "lower_char c =
     (case map_of (zip ''ABCDEFGHIJKLMNOPQRSTUVWXYZ'' ''abcdefghijklmnopqrstuvwxyz'') c of
        Some l \<Rightarrow> l | None \<Rightarrow> c)"

definition upper_char :: "char \<Rightarrow> char" where
  "upper_char c =
     (case map_of (zip ''abcdefghijklmnopqrstuvwxyz'' ''ABCDEFGHIJKLMNOPQRSTUVWXYZ'') c of
        Some u \<Rightarrow> u | None \<Rightarrow> c)"

definition lower :: "string \<Rightarrow> string" where
  "lower s = map lower_char s"

definition upper :: "string \<Rightarrow> string" where
  "upper s = map upper_char s"

definition strip :: "string \<Rightarrow> string" where
  "strip s = rev (dropWhile py_isspace (rev (dropWhile py_isspace s)))"

text \<open>\<^verbatim>\<open>s.split()\<close>: the maximal runs of non-whitespace characters.\<close>

fun split_acc :: "string \<Rightarrow> string \<Rightarrow> string list" where
  "split_acc [] tok = (if tok = [] then [] else [rev tok])"
| "split_acc (c # cs) tok =
     (if py_isspace c then (if tok = [] then split_acc cs [] else rev tok # split_acc cs [])
      else split_acc cs (c # tok))"

definition split :: "string \<Rightarrow> string list" where
  "split s = split_acc s []"

text \<open>\<^verbatim>\<open>" ".join(parts)\<close>\<close>

fun join_space :: "string list \<Rightarrow> string" where
  "join_space [] = []"
| "join_space [p] = p"
| "join_space (p # q # ps) = p @ '' '' @ join_space (q # ps)"

text \<open>\<^verbatim>\<open>sub in text\<close> on strings.\<close>

fun starts_with :: "string \<Rightarrow> string \<Rightarrow> bool" where
  "starts_with [] text = True"
| "starts_with (c # cs) [] = False"
| "starts_with (c # cs) (d # ds) = (c = d \<and> starts_with cs ds)"

fun py_in :: "string \<Rightarrow> string \<Rightarrow> bool" where
  "py_in sub [] = (sub = [])"
| "py_in sub (d # ds) = (starts_with sub (d # ds) \<or> py_in sub ds)"

text \<open>
  \<^verbatim>\<open>float(token)\<close> succeeds exactly on the tokens of Python's \<^verbatim>\<open>floatvalue\<close> grammar:
  an optional sign, then \<^verbatim>\<open>inf\<close>, \<^verbatim>\<open>infinity\<close> or \<^verbatim>\<open>nan\<close> in any case, or a decimal number
  with an optional exponent, where single underscores may separate digits.
\<close>

fun digitpart :: "string \<Rightarrow> bool" where
  "digitpart [] = False"
| "digitpart [c] = is_digit c"
| "digitpart (c # d # cs) =
     (is_digit c \<and> (if d = CHR ''_'' then digitpart cs else digitpart (d # cs)))"

definition drop_sign :: "string \<Rightarrow> string" where
  "drop_sign s = (case s of c # cs \<Rightarrow> if c = CHR ''+'' \<or> c = CHR ''-'' then cs else s | [] \<Rightarrow> s)"

definition number_ok :: "string \<Rightarrow> bool" where
  "number_ok s =
     (let intpart = takeWhile (\<lambda>c. c \<noteq> CHR ''.'') s;
          rest = dropWhile (\<lambda>c. c \<noteq> CHR ''.'') s
      in case rest of
           [] \<Rightarrow> digitpart intpart
         | _ # fraction \<Rightarrow>
             ((intpart = [] \<or> digitpart intpart) \<and> digitpart fraction)
             \<or> (digitpart intpart \<and> fraction = []))"

definition floatnumber_ok :: "string \<Rightarrow> bool" where
  "floatnumber_ok s =
     (let mantissa = takeWhile (\<lambda>c. lower_char c \<noteq> CHR ''e'') s;
          rest = dropWhile (\<lambda>c. lower_char c \<noteq> CHR ''e'') s
      in case rest of
           [] \<Rightarrow> number_ok mantissa
         | _ # exponent \<Rightarrow> number_ok mantissa \<and> digitpart (drop_sign exponent))"

definition is_numeric_token :: "string \<Rightarrow> bool" where
  "is_numeric_token token =
     (let body = drop_sign token
      in lower body \<in> set [''inf'', ''infinity'', ''nan''] \<or> floatnumber_ok body)"


section \<open>Regular expressions\<close>

text \<open>
  The fragment of Python's \<^verbatim>\<open>re\<close> syntax that the patterns of the sources use, with the
  semantics of a backtracking matcher: \<open>rx_match\<close> lists the ways a pattern can match a
  prefix of the input, in the order in which backtracking tries them (greedy operators
  prefer the longer match, lazy ones the shorter, an alternation its left branch).
  Every pattern with letters is compiled with \<^verbatim>\<open>re.IGNORECASE\<close>, so literals and sets
  compare case-insensitively.
\<close>

datatype atom = Lit char | Set string | Digit | Space | Dot

fun atom_matches :: "atom \<Rightarrow> char \<Rightarrow> bool" where
  "atom_matches (Lit a) c = (lower_char c = lower_char a)"
| "atom_matches (Set as) c = (lower_char c \<in> set (map lower_char as))"
| "atom_matches Digit c = is_digit c"
| "atom_matches Space c = py_isspace c"
| "atom_matches Dot c = (c \<noteq> CHR 0x0A)"

datatype rx =
    Atom atom
  | Eps
  | Seq rx rx
  | Alt rx rx
  | Opt rx
  | Star atom
  | Lazy_Star atom
  | Group string rx

type_synonym captures = "(string \<times> string) list"

fun greedy_star :: "atom \<Rightarrow> string \<Rightarrow> string list" where
  "greedy_star a [] = [[]]"
| "greedy_star a (c # cs) = (if atom_matches a c then greedy_star a cs @ [c # cs] else [c # cs])"

fun lazy_star :: "atom \<Rightarrow> string \<Rightarrow> string list" where
  "lazy_star a [] = [[]]"
| "lazy_star a (c # cs) = (c # cs) # (if atom_matches a c then lazy_star a cs else [])"

text \<open>A state is the rest of the input and the groups captured so far.\<close>

fun rx_match :: "rx \<Rightarrow> string \<times> captures \<Rightarrow> (string \<times> captures) list" where
  "rx_match (Atom a) (s, caps) =
     (case s of [] \<Rightarrow> [] | c # cs \<Rightarrow> if atom_matches a c then [(cs, caps)] else [])"
| "rx_match Eps st = [st]"
| "rx_match (Seq r1 r2) st = concat (map (rx_match r2) (rx_match r1 st))"
| "rx_match (Alt r1 r2) st = rx_match r1 st @ rx_match r2 st"
| "rx_match (Opt r) st = rx_match r st @ [st]"
| "rx_match (Star a) (s, caps) = map (\<lambda>s'. (s', caps)) (greedy_star a s)"
| "rx_match (Lazy_Star a) (s, caps) = map (\<lambda>s'. (s', caps)) (lazy_star a s)"
| "rx_match (Group name r) (s, caps) =
     map (\<lambda>(s', caps'). (s', (name, take (length s - length s') s) # caps'))
         (rx_match r (s, caps))"

text \<open>\<^verbatim>\<open>regex.search\<close>: the first match at the leftmost position that has one.\<close>

fun rx_search :: "rx \<Rightarrow> string \<Rightarrow> captures option" where
  "rx_search r [] = (case rx_match r ([], []) of [] \<Rightarrow> None | (s', caps) # _ \<Rightarrow> Some caps)"
| "rx_search r (c # cs) =
     (case rx_match r (c # cs, []) of [] \<Rightarrow> rx_search r cs | (s', caps) # _ \<Rightarrow> Some caps)"

text \<open>\<^verbatim>\<open>fullmatch\<close>: some way of matching consumes the whole input.\<close>

definition rx_fullmatch :: "rx \<Rightarrow> string \<Rightarrow> bool" where
  "rx_fullmatch r s = (\<exists>st \<in> set (rx_match r (s, [])). fst st = [])"

definition seqs :: "rx list \<Rightarrow> rx" where
  "seqs rs = foldr Seq rs Eps"

definition lit :: "string \<Rightarrow> rx" where
  "lit s = seqs (map (\<lambda>c. Atom (Lit c)) s)"

definition digits :: "nat \<Rightarrow> rx" where
  "digits n = seqs (replicate n (Atom Digit))"

text \<open>\<^verbatim>\<open>match.group(name)\<close> of a named group.\<close>

definition group :: "captures \<Rightarrow> string \<Rightarrow> string option" where
  "group caps name = map_of caps name"


section \<open>utils.py\<close>

text \<open>\<^verbatim>\<open>re.sub(r'[^\w\s]', '', text)\<close>: keep letters, digits, underscore and whitespace.\<close>

definition is_word_char :: "char \<Rightarrow> bool" where
  "is_word_char c =
     (c \<in> set ''abcdefghijklmnopqrstuvwxyzABCDEFGHIJKLMNOPQRSTUVWXYZ0123456789_'')"

definition remove_punctuation :: "string \<Rightarrow> string" where
  "remove_punctuation text = filter (\<lambda>c. is_word_char c \<or> py_isspace c) text"

definition is_loosely_contained_nltk_no_punctuation :: "string \<Rightarrow> string \<Rightarrow> bool" where
  "is_loosely_contained_nltk_no_punctuation substr text =
     (let text_nopunct = remove_punctuation text;
          substr_nopunct = remove_punctuation substr
      in py_in substr_nopunct text_nopunct)"

text \<open>
  \<^verbatim>\<open>Levenshtein.distance\<close> of rapidfuzz with its default weights: the least number of
  insertions, deletions and substitutions turning one string into the other.
\<close>

fun levenshtein :: "string \<Rightarrow> string \<Rightarrow> nat" where
  "levenshtein [] t = length t"
| "levenshtein (a # s) [] = length (a # s)"
| "levenshtein (a # s) (b # t) =
     min (min (levenshtein s (b # t) + 1) (levenshtein (a # s) t + 1))
         (levenshtein s t + (if a = b then 0 else 1))"

definition get_edit_distance_score :: "string \<Rightarrow> string \<Rightarrow> real" where
  "get_edit_distance_score str1 str2 =
     (let dist = levenshtein str1 str2;
          max_len = max (length str1) (length str2)
      in if max_len = 0 then (if dist = 0 then 100 else 0)
         else 100 * (1 - real dist / real max_len))"

definition strip_trailing_numbers :: "string \<Rightarrow> string" where
  "strip_trailing_numbers text =
     (let parts = split text
      in join_space (rev (dropWhile is_numeric_token (rev parts))))"


text \<open>
  The nine patterns of \<^verbatim>\<open>find_quarter_year_from_filename\<close>, in the order of the list:
  \<^enum> \<^verbatim>\<open>(?P<year>\d{4}).*?[qQ][tT]?[rR]?[-_]?(?P<q>[1-4])\<close>
  \<^enum> \<^verbatim>\<open>[fF][yY].*?(?P<year>\d{4}).*?[qQ][tT]?[rR]?[-_]?(?P<q>[1-4])\<close>
  \<^enum> \<^verbatim>\<open>[qQ][tT]?[rR]?[-_]?(?P<q>[1-4]).*?(?P<year>\d{4})\<close>
  \<^enum> \<^verbatim>\<open>(?:quarter|qtr|q)\s*(?P<q>[1-4]).*?(?P<year>\d{4})\<close>
  \<^enum> \<^verbatim>\<open>(?P<year>\d{4}).*?[qQ].*?(?P<q>[1-4])\<close>
  \<^enum> \<^verbatim>\<open>[qQ].*?(?P<q>[1-4]).*?(?P<year>\d{4})\<close>
  \<^enum> \<^verbatim>\<open>(?P<q>[1-4])[qQ][tT][rR].*?(?P<year2>\d{2})\<close>
  \<^enum> \<^verbatim>\<open>(?P<year>\d{4})[qQ][tT][rR].*?(?P<q>[1-4])\<close>
  \<^enum> \<^verbatim>\<open>(?P<q>[1-4])[qQ](?P<year2>\d{2})\<close>
\<close>

definition quarter_digit :: rx where
  "quarter_digit = Group ''q'' (Atom (Set ''1234''))"

definition qtr_prefix :: "rx list" where
  "qtr_prefix = [Atom (Set ''qQ''), Opt (Atom (Set ''tT'')), Opt (Atom (Set ''rR'')),
                 Opt (Atom (Set ''-_''))]"

definition patterns :: "rx list" where
  "patterns =
    [seqs ([Group ''year'' (digits 4), Lazy_Star Dot] @ qtr_prefix @ [quarter_digit]),
     seqs ([Atom (Set ''fF''), Atom (Set ''yY''), Lazy_Star Dot, Group ''year'' (digits 4),
            Lazy_Star Dot] @ qtr_prefix @ [quarter_digit]),
     seqs (qtr_prefix @ [quarter_digit, Lazy_Star Dot, Group ''year'' (digits 4)]),
     seqs [Alt (lit ''quarter'') (Alt (lit ''qtr'') (lit ''q'')), Star Space, quarter_digit,
           Lazy_Star Dot, Group ''year'' (digits 4)],
     seqs [Group ''year'' (digits 4), Lazy_Star Dot, Atom (Set ''qQ''), Lazy_Star Dot,
           quarter_digit],
     seqs [Atom (Set ''qQ''), Lazy_Star Dot, quarter_digit, Lazy_Star Dot,
           Group ''year'' (digits 4)],
     seqs [quarter_digit, Atom (Set ''qQ''), Atom (Set ''tT''), Atom (Set ''rR''), Lazy_Star Dot,
           Group ''year2'' (digits 2)],
     seqs [Group ''year'' (digits 4), Atom (Set ''qQ''), Atom (Set ''tT''), Atom (Set ''rR''),
           Lazy_Star Dot, quarter_digit],
     seqs [quarter_digit, Atom (Set ''qQ''), Group ''year2'' (digits 2)]]"

text \<open>
  The year of a match: a non-empty \<^verbatim>\<open>year2\<close> group is prefixed with \<^verbatim>\<open>20\<close>, otherwise a
  non-empty \<^verbatim>\<open>year\<close> group is taken as it is, otherwise the year is \<^verbatim>\<open>None\<close>.
\<close>

definition year_of_match :: "captures \<Rightarrow> string option" where
  "year_of_match m =
     (case group m ''year2'' of
        Some (c # cs) \<Rightarrow> Some (''20'' @ c # cs)
      | _ \<Rightarrow> (case group m ''year'' of Some (c # cs) \<Rightarrow> Some (c # cs) | _ \<Rightarrow> None))"

text \<open>
  The loop over the patterns.  \<^verbatim>\<open>match.group('q')\<close> raises IndexError for a pattern
  without that group.  The result is the pair \<^verbatim>\<open>(quarter, year)\<close>.
\<close>

fun try_patterns :: "rx list \<Rightarrow> string \<Rightarrow> py_error + (string option \<times> string option)" where
  "try_patterns [] filename = Inr (None, None)"
| "try_patterns (pattern # rest) filename =
     (case rx_search pattern filename of
        None \<Rightarrow> try_patterns rest filename
      | Some m \<Rightarrow>
          (case group m ''q'' of
             None \<Rightarrow> Inl IndexError
           | Some quarter_num \<Rightarrow>
               if quarter_num \<notin> set [''1'', ''2'', ''3'', ''4'']
               then try_patterns rest filename
               else Inr (Some (''Q'' @ quarter_num), year_of_match m)))"

definition find_quarter_year_from_filename ::
  "string \<Rightarrow> py_error + (string option \<times> string option)" where
  "find_quarter_year_from_filename filename = try_patterns patterns filename"

text \<open>A pattern is passed over by the loop when it does not match, or when it matches with
  a quarter digit outside 1 to 4.\<close>

definition skipped :: "rx \<Rightarrow> string \<Rightarrow> bool" where
  "skipped pattern filename =
     (case rx_search pattern filename of
        None \<Rightarrow> True
      | Some m \<Rightarrow> (case group m ''q'' of None \<Rightarrow> False
                   | Some quarter_num \<Rightarrow> quarter_num \<notin> set [''1'', ''2'', ''3'', ''4'']))"


section \<open>excel_reader_no_llm.py\<close>

text \<open>
  The sheet read with \<^verbatim>\<open>header=None\<close> is a list of rows with the index \<open>0, 1, \<dots>\<close>; a
  cell is either missing (pandas' NaN) or has a value, which is represented by the text
  \<^verbatim>\<open>str(cell)\<close> since the functions below read nothing else from it.
\<close>

datatype cell = Missing | Text string

type_synonym dataframe = "cell list list"

text \<open>\<^verbatim>\<open>row.astype(str)\<close> renders a missing cell as \<^verbatim>\<open>nan\<close>; \<^verbatim>\<open>fillna('').astype(str)\<close> as
  the empty string.\<close>

definition astype_str :: "cell \<Rightarrow> string" where
  "astype_str c = (case c of Missing \<Rightarrow> ''nan'' | Text s \<Rightarrow> s)"

definition fillna_astype_str :: "cell \<Rightarrow> string" where
  "fillna_astype_str c = (case c of Missing \<Rightarrow> [] | Text s \<Rightarrow> s)"

text \<open>The quarter token \<^verbatim>\<open>\dQ|Q\d\<close> (searched with \<^verbatim>\<open>case=False\<close>) and the year token
  \<^verbatim>\<open>\d{4}\<close> (full match).\<close>

definition quarter_token :: rx where
  "quarter_token = Alt (Seq (Atom Digit) (Atom (Lit CHR ''Q''))) (Seq (Atom (Lit CHR ''Q'')) (Atom Digit))"

definition q_count :: "cell list \<Rightarrow> nat" where
  "q_count row = length (filter (\<lambda>c. rx_search quarter_token (astype_str c) \<noteq> None) row)"

definition year_count :: "cell list \<Rightarrow> nat" where
  "year_count row = length (filter (\<lambda>c. rx_fullmatch (digits 4) (astype_str c)) row)"

text \<open>
  The loop of \<^verbatim>\<open>detect_header_rows\<close> over \<^verbatim>\<open>df.iterrows()\<close>; its state is
  \<^verbatim>\<open>header_row_with_q\<close>, and \<^verbatim>\<open>header_row_with_years\<close> is assigned only just before the
  \<^verbatim>\<open>break\<close>.
\<close>

fun detect_loop :: "(nat \<times> cell list) list \<Rightarrow> nat option \<Rightarrow> nat option \<times> nat option" where
  "detect_loop [] header_row_with_q = (header_row_with_q, None)"
| "detect_loop ((idx, row) # rest) header_row_with_q =
     (case (if q_count row > 1 \<and> header_row_with_q = None then Some idx else header_row_with_q) of
        None \<Rightarrow> detect_loop rest None
      | Some hq \<Rightarrow>
          if idx = hq + 1 \<and> year_count row > 1 then (Some hq, Some idx)
          else detect_loop rest (Some hq))"

definition detect_header_rows :: "dataframe \<Rightarrow> nat option \<times> nat option" where
  "detect_header_rows df = detect_loop (enumerate 0 df) None"

text \<open>The test of one column in \<^verbatim>\<open>find_column_index_for_quarter_year\<close> (lines 46-48).\<close>

definition column_matches :: "string \<Rightarrow> string \<Rightarrow> string \<Rightarrow> string \<Rightarrow> bool" where
  "column_matches q y quarter year =
     (let q_ref_as_lst = set (upper (strip q));
          q_as_lst = set (upper quarter)
      in q_as_lst = q_ref_as_lst \<and> strip y = year)"

fun column_loop :: "(nat \<times> string \<times> string) list \<Rightarrow> string \<Rightarrow> string \<Rightarrow> nat option" where
  "column_loop [] quarter year = None"
| "column_loop ((col_idx, q, y) # rest) quarter year =
     (if column_matches q y quarter year then Some col_idx else column_loop rest quarter year)"

text \<open>The result is the pair \<^verbatim>\<open>(header_year_row, col_idx)\<close>.  The two \<^verbatim>\<open>iloc\<close> reads are
  at indices that \<open>detect_header_rows\<close> took from the frame's own index.\<close>

definition find_column_index_for_quarter_year ::
  "dataframe \<Rightarrow> string \<Rightarrow> string \<Rightarrow> nat option \<times> nat option" where
  "find_column_index_for_quarter_year summary_df quarter year =
     (case detect_header_rows summary_df of
        (Some header_q_row, Some header_year_row) \<Rightarrow>
          (let quarter_row = map fillna_astype_str (summary_df ! header_q_row);
               year_row = map fillna_astype_str (summary_df ! header_year_row)
           in (Some header_year_row,
               column_loop (enumerate 0 (zip quarter_row year_row)) quarter year))
      | _ \<Rightarrow> (None, None))"


text \<open>The fixed metric list of \<^verbatim>\<open>get_metrics_from_df\<close>.\<close>

definition metrics :: "string list" where
  "metrics = [''CET1 Capital Ratio'', ''Tangible book value per share'', ''Book value per share'',
              ''Net income'', ''Revenues'']"

text \<open>\<^verbatim>\<open>" ".join(str(cell) for cell in row if pd.notna(cell)).strip()\<close>\<close>

definition row_text :: "cell list \<Rightarrow> string" where
  "row_text row = strip (join_space (map astype_str (filter (\<lambda>c. c \<noteq> Missing) row)))"

text \<open>\<^verbatim>\<open>row[column_index]\<close>: the columns are labelled \<open>0, 1, \<dots>\<close>, and a label that is not
  there raises KeyError.\<close>

definition row_get :: "cell list \<Rightarrow> nat \<Rightarrow> py_error + cell" where
  "row_get row column_index =
     (if column_index < length row then Inr (row ! column_index) else Inl KeyError)"

text \<open>
  The body of the inner loop of \<^verbatim>\<open>get_metrics_from_df\<close> for one row (lines 82-91): a row
  with empty text, or whose text does not contain the metric, is passed over (\<open>None\<close>);
  otherwise the row is a candidate with a score.
\<close>

definition candidate_score :: "string \<Rightarrow> cell list \<Rightarrow> real option" where
  "candidate_score normalized_metric row =
     (if row_text row = [] then None
      else let normalized_row_text = lower (row_text row)
           in if is_loosely_contained_nltk_no_punctuation normalized_metric normalized_row_text
              then Some (get_edit_distance_score normalized_metric
                           (strip_trailing_numbers normalized_row_text))
              else None)"

text \<open>
  The inner loop over \<^verbatim>\<open>df.iterrows()\<close>, for one metric.  Its state is
  \<^verbatim>\<open>(best_score, best_value)\<close>, initially \<^verbatim>\<open>(-1, None)\<close>.
\<close>

fun scan_rows ::
  "string \<Rightarrow> nat \<Rightarrow> nat \<Rightarrow> (nat \<times> cell list) list \<Rightarrow> real \<times> cell option
     \<Rightarrow> py_error + (real \<times> cell option)" where
  "scan_rows normalized_metric text_idx column_index [] best = Inr best"
| "scan_rows normalized_metric text_idx column_index ((i, row) # rest) (best_score, best_value) =
     (if i < text_idx
      then scan_rows normalized_metric text_idx column_index rest (best_score, best_value)
      else case candidate_score normalized_metric row of
             None \<Rightarrow> scan_rows normalized_metric text_idx column_index rest (best_score, best_value)
           | Some score \<Rightarrow>
               if score > best_score
               then bind (row_get row column_index) (\<lambda>v.
                      scan_rows normalized_metric text_idx column_index rest (score, Some v))
               else scan_rows normalized_metric text_idx column_index rest
                      (best_score, best_value))"

type_synonym metric_to_val = "string \<rightharpoonup> cell option"

fun metric_loop ::
  "string list \<Rightarrow> dataframe \<Rightarrow> nat \<Rightarrow> nat \<Rightarrow> metric_to_val \<Rightarrow> py_error + metric_to_val" where
  "metric_loop [] df text_idx column_index metric_to_val = Inr metric_to_val"
| "metric_loop (metric # rest) df text_idx column_index metric_to_val =
     bind (scan_rows (lower metric) text_idx column_index (enumerate 0 df) (-1, None))
       (\<lambda>(best_score, best_value).
          metric_loop rest df text_idx column_index
            (if best_score > -1 then metric_to_val(metric \<mapsto> best_value) else metric_to_val))"

definition get_metrics_from_df :: "dataframe \<Rightarrow> nat \<Rightarrow> nat \<Rightarrow> py_error + metric_to_val" where
  "get_metrics_from_df df text_idx column_index =
     metric_loop metrics df text_idx column_index Map.empty"

text \<open>
  \<^verbatim>\<open>get_metrics_values_from_excel\<close>, with the sheet that \<^verbatim>\<open>pd.read_excel\<close> returns as a
  parameter.  \<^verbatim>\<open>not x\<close> holds of \<^verbatim>\<open>None\<close>, of the empty string and of the integer 0.
  \<open>extract_below_header\<close> is the part of the function after the call of
  \<^verbatim>\<open>find_column_index_for_quarter_year\<close> (lines 111-115).
\<close>

definition not_str :: "string option \<Rightarrow> bool" where
  "not_str x = (x = None \<or> x = Some [])"

definition not_int :: "nat option \<Rightarrow> bool" where
  "not_int x = (x = None \<or> x = Some 0)"

definition extract_below_header ::
  "dataframe \<Rightarrow> nat option \<times> nat option \<Rightarrow> py_error + metric_to_val" where
  "extract_below_header summary_df located =
     (case located of
        (header_row, column_index) \<Rightarrow>
          if not_int header_row \<or> not_int column_index then Inr Map.empty
          else (case (header_row, column_index) of
                  (Some h, Some c) \<Rightarrow> get_metrics_from_df summary_df (h + 1) c
                | _ \<Rightarrow> Inr Map.empty))"

definition get_metrics_values_from_excel :: "string \<Rightarrow> dataframe \<Rightarrow> py_error + metric_to_val" where
  "get_metrics_values_from_excel excel_path summary_df =
     bind (find_quarter_year_from_filename excel_path) (\<lambda>(quarter, year).
       if not_str quarter \<or> not_str year then Inr Map.empty
       else (case (quarter, year) of
               (Some q, Some y) \<Rightarrow>
                 extract_below_header summary_df
                   (find_column_index_for_quarter_year summary_df q y)
             | _ \<Rightarrow> Inr Map.empty))"


section \<open>pdf_reader_no_llm.py: selecting one value per metric\<close>

text \<open>One dictionary of \<^verbatim>\<open>extracted_data\<close>; \<^verbatim>\<open>unit\<close> and \<^verbatim>\<open>quarter\<close> can be \<^verbatim>\<open>None\<close>.\<close>

record observation =
  obs_metric :: string
  obs_value :: real
  obs_unit :: "string option"
  obs_quarter :: "string option"
  obs_sentence :: string

text \<open>A float column of a merged frame holds numbers and NaN for missing entries.\<close>

datatype pandas_float = NaN | Num real

text \<open>One dictionary of the returned \<^verbatim>\<open>final_df.to_dict('records')\<close>.\<close>

record metric_record =
  rec_metric :: string
  rec_value :: pandas_float
  rec_unit :: string

text \<open>Step 7: \<^verbatim>\<open>df[(df['quarter'] == quarter) | (df['quarter'].isnull())]\<close>\<close>

definition filter_quarter :: "observation list \<Rightarrow> string \<Rightarrow> observation list" where
  "filter_quarter df quarter =
     filter (\<lambda>ob. obs_quarter ob = Some quarter \<or> obs_quarter ob = None) df"

text \<open>
  Step 8: \<^verbatim>\<open>groupby(['metric', 'value', 'unit']).size().reset_index(name='counts')\<close>.
  With the defaults of \<^verbatim>\<open>groupby\<close> a row whose key has a missing component belongs to no
  group (\<^verbatim>\<open>dropna=True\<close>) and the groups come in ascending order of their keys
  (\<^verbatim>\<open>sort=True\<close>).  A row of the grouped frame is \<open>((metric, value, unit), counts)\<close>.
\<close>

type_synonym group_key = "string \<times> real \<times> string"
type_synonym grouped_row = "group_key \<times> nat"

definition metric_of :: "grouped_row \<Rightarrow> string" where
  "metric_of r = fst (fst r)"

definition value_of :: "grouped_row \<Rightarrow> real" where
  "value_of r = fst (snd (fst r))"

definition unit_of :: "grouped_row \<Rightarrow> string" where
  "unit_of r = snd (snd (fst r))"

definition counts :: "grouped_row \<Rightarrow> nat" where
  "counts r = snd r"

definition key_of :: "observation \<Rightarrow> group_key option" where
  "key_of ob = (case obs_unit ob of None \<Rightarrow> None | Some u \<Rightarrow> Some (obs_metric ob, obs_value ob, u))"

definition groupby_size :: "observation list \<Rightarrow> grouped_row list" where
  "groupby_size df =
     (let keys = List.map_filter key_of df
      in map (\<lambda>k. (k, count_list keys k)) (sort (remdups keys)))"

text \<open>The number of observations of a frame with a given metric, value and unit.\<close>

definition occurrences :: "observation list \<Rightarrow> group_key \<Rightarrow> nat" where
  "occurrences df k = length (filter (\<lambda>ob. key_of ob = Some k) df)"

text \<open>
  \<^verbatim>\<open>sort_values(['metric', 'counts'], ascending=[True, False])\<close>: sorting by several columns
  is a stable lexicographic sort, so rows with the same metric and the same count keep
  the order of the grouped frame.
\<close>

definition sort_metric_counts :: "grouped_row list \<Rightarrow> grouped_row list" where
  "sort_metric_counts rows = sort_key (\<lambda>r. (metric_of r, - int (counts r))) rows"

text \<open>\<^verbatim>\<open>groupby('metric').first().reset_index()\<close>: per metric, in ascending order of the
  metrics, the first row (no column of the grouped frame has a missing entry).\<close>

definition groupby_metric_first :: "grouped_row list \<Rightarrow> grouped_row list" where
  "groupby_metric_first rows =
     List.map_filter (\<lambda>m. find (\<lambda>r. metric_of r = m) rows)
       (sort (remdups (map metric_of rows)))"

text \<open>
  The left merge with the filtered observations on \<^verbatim>\<open>['metric', 'value', 'unit']\<close> repeats a
  selected row once per observation with its key, to attach the \<^verbatim>\<open>quarter\<close> column; the
  \<^verbatim>\<open>transform\<close> rewrites that column only, and \<^verbatim>\<open>drop_duplicates(subset=['metric'])\<close> keeps the
  first row of each metric.  The \<^verbatim>\<open>quarter\<close> column is dropped again in line 287 and
  is left out here.
\<close>

definition merge_quarters :: "grouped_row list \<Rightarrow> observation list \<Rightarrow> grouped_row list" where
  "merge_quarters selection df =
     concat (map (\<lambda>r. case filter (\<lambda>ob. key_of ob = Some (fst r)) df of
                         [] \<Rightarrow> [r]
                       | obs \<Rightarrow> map (\<lambda>ob. r) obs) selection)"

fun drop_duplicates_metric :: "grouped_row list \<Rightarrow> grouped_row list" where
  "drop_duplicates_metric [] = []"
| "drop_duplicates_metric (r # rs) =
     r # drop_duplicates_metric (filter (\<lambda>r'. metric_of r' \<noteq> metric_of r) rs)"

definition metrics_priority :: "string list" where
  "metrics_priority = [''CET1 Capital Ratio'', ''Tangible book value per share'',
                       ''Book value per share'', ''Net income'', ''Revenues'']"

text \<open>
  \<^verbatim>\<open>pd.merge(priority_df, final_selection, on='metric', how='left')\<close> keeps every row of the
  priority frame, in its order: with the matching selected rows, or once with missing
  \<^verbatim>\<open>value\<close> and \<^verbatim>\<open>unit\<close>.  \<^verbatim>\<open>astype(float)\<close> leaves a missing value NaN and \<^verbatim>\<open>astype(str)\<close>
  turns a missing unit into the text \<^verbatim>\<open>nan\<close>.
\<close>

definition merge_priority :: "grouped_row list \<Rightarrow> (nat \<times> metric_record) list" where
  "merge_priority final_selection =
     concat (map (\<lambda>(priority, m).
                    case filter (\<lambda>r. metric_of r = m) final_selection of
                      [] \<Rightarrow> [(priority, \<lparr>rec_metric = m, rec_value = NaN, rec_unit = ''nan''\<rparr>)]
                    | rs \<Rightarrow> map (\<lambda>r. (priority, \<lparr>rec_metric = m, rec_value = Num (value_of r),
                                                   rec_unit = unit_of r\<rparr>)) rs)
                 (enumerate 1 metrics_priority))"

text \<open>
  \<^verbatim>\<open>get_metrics_values_from_pdf\<close> from line 230 on, with the quarter of the file name and
  the list \<^verbatim>\<open>extracted_data\<close> as parameters.  For an empty list the source returns an
  empty dictionary, which its caller iterates like an empty list.
\<close>

definition get_metrics_values_from_pdf :: "string \<Rightarrow> observation list \<Rightarrow> metric_record list" where
  "get_metrics_values_from_pdf quarter extracted_data =
     (if extracted_data = [] then []
      else
        let df_filtered = filter_quarter extracted_data quarter;
            df_grouped = groupby_size df_filtered;
            df_grouped_sorted = sort_metric_counts df_grouped;
            final_selection = groupby_metric_first df_grouped_sorted;
            final_selection = drop_duplicates_metric (merge_quarters final_selection df_filtered);
            final_df = sort_key fst (merge_priority final_selection)
        in map snd final_df)"


section \<open>main.py: the comparator\<close>

datatype match_status = Match | No_Match

text \<open>The value of \<^verbatim>\<open>pdf_metric_dict[metric]\<close>: \<^verbatim>\<open>{'value': float, 'unit': str}\<close>.\<close>

record pdf_info =
  info_value :: real
  info_unit :: string

text \<open>
  The displayed cells of a result row.  Formatting a float as text is not modelled:
  \<open>Pdf_text v u\<close> stands for the f-string \<^verbatim>\<open>f"{value}{unit}"\<close>, \<open>Excel_text v\<close> for
  \<^verbatim>\<open>f"{excel_value}"\<close>, and \<open>Excel_raw v\<close> for the unformatted dictionary value that the
  second loop appends.  \<open>None\<close> in a row is Python's \<^verbatim>\<open>None\<close>.
\<close>

datatype pdf_display = Pdf_text real string
datatype excel_display = Excel_text real | Excel_raw real

record comparison_row =
  row_metric :: string
  row_pdf :: "pdf_display option"
  row_excel :: "excel_display option"
  row_status :: match_status

text \<open>The nested helper of \<^verbatim>\<open>compare_values\<close> (main.py, lines 33-37).\<close>

definition is_within_tolerance :: "real \<Rightarrow> real \<Rightarrow> real \<Rightarrow> py_error + bool" where
  "is_within_tolerance a b tol =
     (if b = 0 then Inr (a = 0)
      else bind (py_div a b) (\<lambda>ratio. Inr (1 - tol \<le> ratio \<and> ratio \<le> 1 + tol)))"

text \<open>
  The body of the first loop for a metric found in both dictionaries (lines 26-61):
  the status starts as No Match and is updated by three consecutive \<^verbatim>\<open>if\<close> statements.
\<close>

definition initial_comparison :: "real \<Rightarrow> string \<Rightarrow> real \<Rightarrow> real \<Rightarrow> py_error + match_status" where
  "initial_comparison pdf_value pdf_unit excel_value relative_tolerance =
     (if pdf_unit = ''%'' then
        bind (py_div pdf_value 100) (\<lambda>pdf_adj.
        bind (if excel_value > 1 then py_div excel_value 100 else Inr excel_value) (\<lambda>excel_adj.
        bind (is_within_tolerance pdf_adj excel_adj relative_tolerance) (\<lambda>ok.
        Inr (if ok then Match else No_Match))))
      else
        bind (is_within_tolerance pdf_value excel_value relative_tolerance) (\<lambda>ok.
        Inr (if ok then Match else No_Match)))"

definition scaling_retry ::
  "(real \<Rightarrow> py_error + real) \<Rightarrow> real \<Rightarrow> string \<Rightarrow> real \<Rightarrow> real \<Rightarrow> match_status
     \<Rightarrow> py_error + match_status" where
  "scaling_retry scale pdf_value pdf_unit excel_value relative_tolerance match_status =
     (if match_status = No_Match \<and> pdf_unit \<noteq> ''%'' then
        bind (scale excel_value) (\<lambda>scaled_excel.
        bind (is_within_tolerance pdf_value scaled_excel relative_tolerance) (\<lambda>ok.
        Inr (if ok then Match else match_status)))
      else Inr match_status)"

definition compare_metric :: "real \<Rightarrow> string \<Rightarrow> real \<Rightarrow> real \<Rightarrow> py_error + match_status" where
  "compare_metric pdf_value pdf_unit excel_value relative_tolerance =
     bind (initial_comparison pdf_value pdf_unit excel_value relative_tolerance) (\<lambda>s0.
     bind (scaling_retry (\<lambda>e. Inr (e * 1000)) pdf_value pdf_unit excel_value relative_tolerance s0) (\<lambda>s1.
     scaling_retry (\<lambda>e. py_div e 1000) pdf_value pdf_unit excel_value relative_tolerance s1))"

text \<open>
  Dictionaries are association lists in insertion order (their keys are distinct);
  \<^verbatim>\<open>metric not in d\<close> is \<open>map_of d metric = None\<close>.
\<close>

fun pdf_loop ::
  "(string \<times> pdf_info) list \<Rightarrow> (string \<times> real) list \<Rightarrow> real \<Rightarrow> py_error + comparison_row list" where
  "pdf_loop [] excel_metric_dict tol = Inr []"
| "pdf_loop ((metric, info) # rest) excel_metric_dict tol =
     (case map_of excel_metric_dict metric of
        None \<Rightarrow>
          bind (pdf_loop rest excel_metric_dict tol) (\<lambda>rows.
          Inr (\<lparr>row_metric = metric, row_pdf = Some (Pdf_text (info_value info) (info_unit info)),
                row_excel = None, row_status = No_Match\<rparr> # rows))
      | Some excel_value \<Rightarrow>
          bind (compare_metric (info_value info) (info_unit info) excel_value tol) (\<lambda>status.
          bind (pdf_loop rest excel_metric_dict tol) (\<lambda>rows.
          Inr (\<lparr>row_metric = metric, row_pdf = Some (Pdf_text (info_value info) (info_unit info)),
                row_excel = Some (Excel_text excel_value), row_status = status\<rparr> # rows))))"

fun excel_loop :: "(string \<times> pdf_info) list \<Rightarrow> (string \<times> real) list \<Rightarrow> comparison_row list" where
  "excel_loop pdf_metric_dict [] = []"
| "excel_loop pdf_metric_dict ((metric, excel_value) # rest) =
     (if map_of pdf_metric_dict metric = None
      then \<lparr>row_metric = metric, row_pdf = None, row_excel = Some (Excel_raw excel_value),
             row_status = No_Match\<rparr> # excel_loop pdf_metric_dict rest
      else excel_loop pdf_metric_dict rest)"

definition compare_values ::
  "(string \<times> pdf_info) list \<Rightarrow> (string \<times> real) list \<Rightarrow> real \<Rightarrow> py_error + comparison_row list" where
  "compare_values pdf_metric_dict excel_metric_dict relative_tolerance =
     bind (pdf_loop pdf_metric_dict excel_metric_dict relative_tolerance) (\<lambda>results.
     Inr (results @ excel_loop pdf_metric_dict excel_metric_dict))"


section \<open>Example inputs\<close>

text \<open>A pattern whose quarter group accepts any digit, for a match that the loop rejects.\<close>

definition any_digit_quarter :: rx where
  "any_digit_quarter = seqs [Group ''q'' (Atom Digit), Atom (Set ''qQ'')]"

text \<open>A sheet whose quarter row is not followed by a year row, although a later row has years.\<close>

definition sheet :: dataframe where
  "sheet = [[Text ''Summary'', Missing, Missing],
            [Missing, Text ''3Q'', Text ''4Q''],
            [Text ''in millions'', Missing, Missing],
            [Missing, Text ''2024'', Text ''2024'']]"

text \<open>A header pair in which two columns fit the third quarter of 2024.\<close>

definition headers :: dataframe where
  "headers = [[Missing, Text ''4Q'', Text '' 3q '', Text ''Q3''],
              [Missing, Text ''2024'', Text ''2024 '', Text ''2024'']]"

text \<open>A sheet whose first column is the one of the third quarter of 2024.\<close>

definition summary :: dataframe where
  "summary = [[Text ''3Q'', Text ''4Q''],
              [Text ''2024'', Text ''2024''],
              [Text ''Revenues 20'', Text ''21'']]"


text \<open>A sheet with the row of the tangible book value only.\<close>

definition tangible_only :: dataframe where
  "tangible_only = [[Text ''Tangible book value per share'', Text ''55.10'']]"

text \<open>One observation, of the capital ratio in the third quarter.\<close>

definition cet1_only :: "observation list" where
  "cet1_only =
     [\<lparr>obs_metric = ''CET1 Capital Ratio'', obs_value = 13.6, obs_unit = Some ''%'',
       obs_quarter = Some ''Q3'', obs_sentence = ''cet1 capital ratio of 13.6% in q3''\<rparr>]"

text \<open>Two observations of net income with different values, the larger value first.\<close>

definition net_income_twice :: "observation list" where
  "net_income_twice =
     [\<lparr>obs_metric = ''Net income'', obs_value = 5, obs_unit = Some ''B'',
       obs_quarter = None, obs_sentence = ''net income of $5b''\<rparr>,
      \<lparr>obs_metric = ''Net income'', obs_value = 3, obs_unit = Some ''B'',
       obs_quarter = None, obs_sentence = ''adjusted net income of $3b''\<rparr>]"


section \<open>Properties of the comparator\<close>

lemma bind_Inr [simp]: "bind (Inr x) f = f x"
  by (simp add: bind_def)

lemma bind_Inl [simp]: "bind (Inl e) f = Inl e"
  by (simp add: bind_def)

lemma is_within_tolerance_total:
  "is_within_tolerance a b tol =
     Inr (if b = 0 then a = 0 else 1 - tol \<le> a / b \<and> a / b \<le> 1 + tol)"
  by (simp add: is_within_tolerance_def py_div_def)

lemma is_within_tolerance_Inr:
  obtains ok where "is_within_tolerance a b tol = Inr ok"
  by (simp add: is_within_tolerance_total)

lemma compare_metric_percent:
  "compare_metric pv ''%'' ev tol =
     Inr (if is_within_tolerance (pv / 100) (if ev > 1 then ev / 100 else ev) tol = Inr True
          then Match else No_Match)"
proof -
  obtain ok where ok: "is_within_tolerance (pv / 100) (if ev > 1 then ev / 100 else ev) tol = Inr ok"
    by (rule is_within_tolerance_Inr)
  then show ?thesis
    by (cases "ev > 1")
       (simp_all add: compare_metric_def initial_comparison_def scaling_retry_def py_div_def)
qed

lemma compare_metric_other:
  assumes "u \<noteq> ''%''"
  shows "compare_metric pv u ev tol =
     Inr (if is_within_tolerance pv ev tol = Inr True then Match
          else if is_within_tolerance pv (ev * 1000) tol = Inr True then Match
          else if is_within_tolerance pv (ev / 1000) tol = Inr True then Match
          else No_Match)"
proof -
  obtain ok0 where ok0: "is_within_tolerance pv ev tol = Inr ok0"
    by (rule is_within_tolerance_Inr)
  obtain ok1 where ok1: "is_within_tolerance pv (ev * 1000) tol = Inr ok1"
    by (rule is_within_tolerance_Inr)
  obtain ok2 where ok2: "is_within_tolerance pv (ev / 1000) tol = Inr ok2"
    by (rule is_within_tolerance_Inr)
  from assms ok0 ok1 ok2 show ?thesis
    by (simp add: compare_metric_def initial_comparison_def scaling_retry_def py_div_def)
qed

lemma compare_metric_Inr:
  obtains status where "compare_metric pv u ev tol = Inr status"
  by (cases "u = ''%''") (simp_all add: compare_metric_percent compare_metric_other)



text \<open>
  Claim C5.  When the tabular argument of the tolerance predicate is 0 the result is
  whether the narrative argument is 0 as well; neither the predicate nor the comparison
  of a metric raises ZeroDivisionError; narrative 0 percent against tabular 0 is a Match.
\<close>

theorem zero_tabular_value:
  "is_within_tolerance a 0 tol = Inr (a = 0)
   \<and> is_within_tolerance a b tol \<noteq> Inl ZeroDivisionError
   \<and> compare_metric pdf_value pdf_unit excel_value tol \<noteq> Inl ZeroDivisionError
   \<and> compare_metric 0 ''%'' 0 tol = Inr Match
   \<and> compare_values [(m, \<lparr>info_value = 0, info_unit = ''%''\<rparr>)] [(m, 0)] tol =
       Inr [\<lparr>row_metric = m, row_pdf = Some (Pdf_text 0 ''%''),
             row_excel = Some (Excel_text 0), row_status = Match\<rparr>]"
proof -
  obtain status where "compare_metric pdf_value pdf_unit excel_value tol = Inr status"
    by (rule compare_metric_Inr)
  then show ?thesis
    by (simp add: compare_metric_percent is_within_tolerance_total compare_values_def)
qed

theorem zero_tabular_value_witness:
  "is_within_tolerance 0 0 0.05 = Inr True \<and> is_within_tolerance 7 0 0.05 = Inr False"
  using zero_tabular_value [of 0 "0.05"] zero_tabular_value [of 7 "0.05"] by simp

lemma pdf_loop_step:
  "pdf_loop ((metric, info) # rest) excel tol =
     bind (pdf_loop rest excel tol) (\<lambda>rows.
       Inr ((case map_of excel metric of
               None \<Rightarrow> \<lparr>row_metric = metric,
                          row_pdf = Some (Pdf_text (info_value info) (info_unit info)),
                          row_excel = None, row_status = No_Match\<rparr>
             | Some excel_value \<Rightarrow>
                 \<lparr>row_metric = metric,
                  row_pdf = Some (Pdf_text (info_value info) (info_unit info)),
                  row_excel = Some (Excel_text excel_value),
                  row_status = (case compare_metric (info_value info) (info_unit info) excel_value tol
                                of Inr s \<Rightarrow> s | Inl e \<Rightarrow> No_Match)\<rparr>) # rows))"
proof (cases "map_of excel metric")
  case None
  then show ?thesis by simp
next
  case (Some excel_value)
  obtain status where "compare_metric (info_value info) (info_unit info) excel_value tol = Inr status"
    by (rule compare_metric_Inr)
  with Some show ?thesis by simp
qed

lemma pdf_loop_total: "\<exists>rows. pdf_loop pdf excel tol = Inr rows"
proof (induction pdf)
  case Nil
  show ?case by simp
next
  case (Cons p pdf)
  then show ?case by (cases p) (auto simp: pdf_loop_step simp del: pdf_loop.simps)
qed

lemma pdf_loop_metrics:
  "pdf_loop pdf excel tol = Inr rows \<Longrightarrow> map row_metric rows = map fst pdf"
proof (induction pdf arbitrary: rows)
  case Nil
  then show ?case by auto
next
  case (Cons p pdf)
  obtain rows' where rows': "pdf_loop pdf excel tol = Inr rows'"
    using pdf_loop_total by blast
  with Cons show ?case
    by (cases p) (auto simp: pdf_loop_step simp del: pdf_loop.simps split: option.splits)
qed

lemma excel_loop_metrics:
  "map row_metric (excel_loop pdf excel) = filter (\<lambda>m. map_of pdf m = None) (map fst excel)"
  by (induction pdf excel rule: excel_loop.induct) auto

lemma pdf_loop_member:
  "pdf_loop pdf excel tol = Inr rows \<Longrightarrow> (m, info) \<in> set pdf \<Longrightarrow> map_of excel m = None \<Longrightarrow>
     \<lparr>row_metric = m, row_pdf = Some (Pdf_text (info_value info) (info_unit info)),
      row_excel = None, row_status = No_Match\<rparr> \<in> set rows"
proof (induction pdf arbitrary: rows)
  case Nil
  then show ?case by simp
next
  case (Cons p pdf)
  obtain rows' where rows': "pdf_loop pdf excel tol = Inr rows'"
    using pdf_loop_total by blast
  with Cons show ?case
    by (cases p) (auto simp: pdf_loop_step simp del: pdf_loop.simps)
qed

lemma excel_loop_member:
  "(m, v) \<in> set excel \<Longrightarrow> map_of pdf m = None \<Longrightarrow>
     \<lparr>row_metric = m, row_pdf = None, row_excel = Some (Excel_raw v), row_status = No_Match\<rparr>
       \<in> set (excel_loop pdf excel)"
  by (induction pdf excel rule: excel_loop.induct) auto

lemma map_of_None_iff: "map_of xs k = None \<longleftrightarrow> k \<notin> fst ` set xs"
  by (simp add: map_of_eq_None_iff)

text \<open>
  Claim C9.  The comparator returns one row per metric of the union of the two
  dictionaries: a metric only in the narrative dictionary has its narrative display, no
  tabular side and status No Match, and a metric only in the tabular dictionary has no
  narrative side, the tabular value and status No Match.
\<close>

theorem one_row_per_metric_of_union:
  assumes "distinct (map fst pdf_metric_dict)" and "distinct (map fst excel_metric_dict)"
  shows "\<exists>rows. compare_values pdf_metric_dict excel_metric_dict tol = Inr rows
    \<and> distinct (map row_metric rows)
    \<and> set (map row_metric rows) = fst ` set pdf_metric_dict \<union> fst ` set excel_metric_dict
    \<and> (\<forall>(m, info) \<in> set pdf_metric_dict. m \<notin> fst ` set excel_metric_dict \<longrightarrow>
          \<lparr>row_metric = m, row_pdf = Some (Pdf_text (info_value info) (info_unit info)),
           row_excel = None, row_status = No_Match\<rparr> \<in> set rows)
    \<and> (\<forall>(m, v) \<in> set excel_metric_dict. m \<notin> fst ` set pdf_metric_dict \<longrightarrow>
          \<lparr>row_metric = m, row_pdf = None, row_excel = Some (Excel_raw v),
           row_status = No_Match\<rparr> \<in> set rows)"
proof -
  obtain rows1 where rows1: "pdf_loop pdf_metric_dict excel_metric_dict tol = Inr rows1"
    using pdf_loop_total by blast
  let ?rows2 = "excel_loop pdf_metric_dict excel_metric_dict"
  have res: "compare_values pdf_metric_dict excel_metric_dict tol = Inr (rows1 @ ?rows2)"
    by (simp add: compare_values_def rows1)
  have m1: "map row_metric rows1 = map fst pdf_metric_dict"
    using rows1 by (rule pdf_loop_metrics)
  have m2: "map row_metric ?rows2 =
      filter (\<lambda>m. m \<notin> fst ` set pdf_metric_dict) (map fst excel_metric_dict)"
    by (simp add: excel_loop_metrics map_of_None_iff)
  have d: "distinct (map row_metric (rows1 @ ?rows2))"
    using assms by (auto simp: m1 m2)
  have s: "set (map row_metric (rows1 @ ?rows2)) =
      fst ` set pdf_metric_dict \<union> fst ` set excel_metric_dict"
    unfolding map_append set_append m1 m2 by auto
  have p: "\<forall>(m, info) \<in> set pdf_metric_dict. m \<notin> fst ` set excel_metric_dict \<longrightarrow>
          \<lparr>row_metric = m, row_pdf = Some (Pdf_text (info_value info) (info_unit info)),
           row_excel = None, row_status = No_Match\<rparr> \<in> set (rows1 @ ?rows2)"
    using pdf_loop_member [OF rows1] by (auto simp: map_of_None_iff)
  have e: "\<forall>(m, v) \<in> set excel_metric_dict. m \<notin> fst ` set pdf_metric_dict \<longrightarrow>
          \<lparr>row_metric = m, row_pdf = None, row_excel = Some (Excel_raw v),
           row_status = No_Match\<rparr> \<in> set (rows1 @ ?rows2)"
    using excel_loop_member [of _ _ excel_metric_dict pdf_metric_dict]
    by (auto simp: map_of_None_iff)
  from res d s p e show ?thesis by blast
qed

theorem one_row_per_metric_of_union_witness:
  "compare_values [(''Revenues'', \<lparr>info_value = 20, info_unit = ''B''\<rparr>)] [(''Net income'', 3)] 0.05 =
     Inr [\<lparr>row_metric = ''Revenues'', row_pdf = Some (Pdf_text 20 ''B''), row_excel = None,
           row_status = No_Match\<rparr>,
          \<lparr>row_metric = ''Net income'', row_pdf = None, row_excel = Some (Excel_raw 3),
           row_status = No_Match\<rparr>]"
proof -
  have d1: "distinct (map fst [(''Revenues'', \<lparr>info_value = 20::real, info_unit = ''B''\<rparr>)])"
    by simp
  have d2: "distinct (map fst [(''Net income'', 3::real)])"
    by simp
  from one_row_per_metric_of_union [OF d1 d2, of "0.05"] show ?thesis
    by (simp add: compare_values_def)
qed


section \<open>Properties of the file name resolver\<close>

lemma try_patterns_skip:
  "skipped pattern filename \<Longrightarrow> try_patterns (pattern # rest) filename = try_patterns rest filename"
  by (auto simp: skipped_def split: option.splits)

lemma try_patterns_first_match:
  "k < length ps \<Longrightarrow> (\<forall>j<k. skipped (ps ! j) filename) \<Longrightarrow>
   rx_search (ps ! k) filename = Some m \<Longrightarrow> group m ''q'' = Some d \<Longrightarrow>
   d \<in> set [''1'', ''2'', ''3'', ''4''] \<Longrightarrow>
   try_patterns ps filename = Inr (Some (''Q'' @ d), year_of_match m)"
proof (induction ps arbitrary: k)
  case Nil
  then show ?case by simp
next
  case (Cons p ps)
  show ?case
  proof (cases k)
    case 0
    with Cons.prems show ?thesis by auto
  next
    case (Suc k')
    from Cons.prems(2) Suc have "skipped p filename" by auto
    then have "try_patterns (p # ps) filename = try_patterns ps filename"
      by (rule try_patterns_skip)
    moreover have "try_patterns ps filename = Inr (Some (''Q'' @ d), year_of_match m)"
    proof (rule Cons.IH [of k'])
      show "k' < length ps" using Cons.prems(1) Suc by simp
      show "\<forall>j<k'. skipped (ps ! j) filename"
        using Cons.prems(2) Suc by auto
      show "rx_search (ps ! k') filename = Some m" using Cons.prems(3) Suc by simp
    qed (use Cons.prems in auto)
    ultimately show ?thesis by simp
  qed
qed

lemma try_patterns_none:
  "(\<forall>p \<in> set ps. skipped p filename) \<Longrightarrow> try_patterns ps filename = Inr (None, None)"
  by (induction ps) (simp_all add: try_patterns_skip del: try_patterns.simps(2))

lemma year2_expanded: "group m ''year2'' = Some (c # cs) \<Longrightarrow> year_of_match m = Some (''20'' @ c # cs)"
  by (simp add: year_of_match_def)

lemma resolve_2024Q3_report:
  "find_quarter_year_from_filename ''2024Q3_report'' = Inr (Some ''Q3'', Some ''2024'')"
  by code_simp

lemma resolve_3Q24_summary:
  "find_quarter_year_from_filename ''3Q24_summary'' = Inr (Some ''Q3'', Some ''2024'')"
  by code_simp

lemma resolve_FY2024_Q3:
  "find_quarter_year_from_filename ''FY2024-Q3'' = Inr (Some ''Q3'', Some ''2024'')"
  by code_simp

lemma resolver_first_match:
  "k < length patterns \<Longrightarrow> (\<forall>j<k. skipped (patterns ! j) filename) \<Longrightarrow>
   rx_search (patterns ! k) filename = Some m \<Longrightarrow> group m ''q'' = Some d \<Longrightarrow>
   d \<in> set [''1'', ''2'', ''3'', ''4''] \<Longrightarrow>
   find_quarter_year_from_filename filename = Inr (Some (''Q'' @ d), year_of_match m)"
  unfolding find_quarter_year_from_filename_def by (rule try_patterns_first_match)

lemma resolver_none:
  "(\<forall>p \<in> set patterns. skipped p filename) \<Longrightarrow>
     find_quarter_year_from_filename filename = Inr (None, None)"
  unfolding find_quarter_year_from_filename_def by (rule try_patterns_none)

lemma patterns_length: "length patterns = 9"
  by (simp add: patterns_def)

lemma earlier_patterns_3Q24_summary:
  "map (\<lambda>p. rx_search p ''3Q24_summary'') (take 8 patterns) = replicate 8 None"
  by code_simp

lemma last_pattern_3Q24_summary:
  "rx_search (patterns ! 8) ''3Q24_summary'' = Some [(''year2'', ''24''), (''q'', ''3'')]"
  by code_simp

lemma first_pattern_2024Q3_report:
  "rx_search (patterns ! 0) ''2024Q3_report'' = Some [(''q'', ''3''), (''year'', ''2024'')]"
  by code_simp

lemma first_pattern_FY2024_Q3:
  "rx_search (patterns ! 0) ''FY2024-Q3'' = Some [(''q'', ''3''), (''year'', ''2024'')]"
  by code_simp

text \<open>
  Claim C4.  The resolver returns (Q3, 2024) for each of the basenames 2024Q3_report,
  3Q24_summary and FY2024-Q3.  For every file name it returns the quarter and year of the
  first of its nine patterns that matches with a quarter digit from 1 to 4: patterns
  before it that do not match, or match with another quarter digit, are passed over, and
  when every pattern is passed over the result is (None, None).  A non-empty two-digit
  year group is returned prefixed with 20.  The first pattern resolves 2024Q3_report and
  FY2024-Q3; the first eight patterns do not match 3Q24_summary and the ninth does.  The
  loop behaves in the same way over any list of patterns.
\<close>

theorem filename_period_resolution:
  "find_quarter_year_from_filename ''2024Q3_report'' = Inr (Some ''Q3'', Some ''2024'')
   \<and> find_quarter_year_from_filename ''3Q24_summary'' = Inr (Some ''Q3'', Some ''2024'')
   \<and> find_quarter_year_from_filename ''FY2024-Q3'' = Inr (Some ''Q3'', Some ''2024'')
   \<and> (\<forall>filename k m d.
         k < length patterns \<and> (\<forall>j<k. skipped (patterns ! j) filename)
         \<and> rx_search (patterns ! k) filename = Some m \<and> group m ''q'' = Some d
         \<and> d \<in> set [''1'', ''2'', ''3'', ''4'']
         \<longrightarrow> find_quarter_year_from_filename filename = Inr (Some (''Q'' @ d), year_of_match m))
   \<and> (\<forall>filename. (\<forall>p \<in> set patterns. skipped p filename)
         \<longrightarrow> find_quarter_year_from_filename filename = Inr (None, None))
   \<and> (\<forall>filename k m d c cs.
         k < length patterns \<and> (\<forall>j<k. skipped (patterns ! j) filename)
         \<and> rx_search (patterns ! k) filename = Some m \<and> group m ''q'' = Some d
         \<and> d \<in> set [''1'', ''2'', ''3'', ''4''] \<and> group m ''year2'' = Some (c # cs)
         \<longrightarrow> find_quarter_year_from_filename filename = Inr (Some (''Q'' @ d), Some (''20'' @ c # cs)))
   \<and> length patterns = 9
   \<and> rx_search (patterns ! 0) ''2024Q3_report'' = Some [(''q'', ''3''), (''year'', ''2024'')]
   \<and> rx_search (patterns ! 0) ''FY2024-Q3'' = Some [(''q'', ''3''), (''year'', ''2024'')]
   \<and> map (\<lambda>p. rx_search p ''3Q24_summary'') (take 8 patterns) = replicate 8 None
   \<and> rx_search (patterns ! 8) ''3Q24_summary'' = Some [(''year2'', ''24''), (''q'', ''3'')]
   \<and> (\<forall>ps filename k m d.
         k < length ps \<and> (\<forall>j<k. skipped (ps ! j) filename)
         \<and> rx_search (ps ! k) filename = Some m \<and> group m ''q'' = Some d
         \<and> d \<in> set [''1'', ''2'', ''3'', ''4'']
         \<longrightarrow> try_patterns ps filename = Inr (Some (''Q'' @ d), year_of_match m))
   \<and> (\<forall>ps filename. (\<forall>p \<in> set ps. skipped p filename)
         \<longrightarrow> try_patterns ps filename = Inr (None, None))
   \<and> (\<forall>m c cs. group m ''year2'' = Some (c # cs) \<longrightarrow> year_of_match m = Some (''20'' @ c # cs))"
proof (intro conjI allI impI)
  fix filename k m d c cs
  assume a: "k < length patterns \<and> (\<forall>j<k. skipped (patterns ! j) filename)
         \<and> rx_search (patterns ! k) filename = Some m \<and> group m ''q'' = Some d
         \<and> d \<in> set [''1'', ''2'', ''3'', ''4''] \<and> group m ''year2'' = Some (c # cs)"
  then have "find_quarter_year_from_filename filename = Inr (Some (''Q'' @ d), year_of_match m)"
    using resolver_first_match [of k filename m d] by blast
  moreover from a have "year_of_match m = Some (''20'' @ c # cs)"
    using year2_expanded [of m c cs] by blast
  ultimately show "find_quarter_year_from_filename filename =
      Inr (Some (''Q'' @ d), Some (''20'' @ c # cs))"
    by simp
next
  fix filename k m d
  assume "k < length patterns \<and> (\<forall>j<k. skipped (patterns ! j) filename)
         \<and> rx_search (patterns ! k) filename = Some m \<and> group m ''q'' = Some d
         \<and> d \<in> set [''1'', ''2'', ''3'', ''4'']"
  then show "find_quarter_year_from_filename filename = Inr (Some (''Q'' @ d), year_of_match m)"
    using resolver_first_match [of k filename m d] by blast
next
  fix ps filename k m d
  assume "k < length ps \<and> (\<forall>j<k. skipped (ps ! j) filename)
         \<and> rx_search (ps ! k) filename = Some m \<and> group m ''q'' = Some d
         \<and> d \<in> set [''1'', ''2'', ''3'', ''4'']"
  then show "try_patterns ps filename = Inr (Some (''Q'' @ d), year_of_match m)"
    using try_patterns_first_match [of k ps filename m d] by blast
qed (simp_all only: resolve_2024Q3_report resolve_3Q24_summary resolve_FY2024_Q3
      resolver_none try_patterns_none year2_expanded patterns_length
      first_pattern_2024Q3_report first_pattern_FY2024_Q3 earlier_patterns_3Q24_summary
      last_pattern_3Q24_summary)

lemma earlier_patterns_1Q25_results:
  "list_all (\<lambda>p. skipped p ''1Q25_results'') (take 8 patterns)"
  by code_simp

lemma last_pattern_1Q25_results:
  "rx_search (patterns ! 8) ''1Q25_results'' = Some [(''year2'', ''25''), (''q'', ''1'')]"
  by code_simp

lemma any_digit_quarter_skipped: "skipped any_digit_quarter ''5Q_3Q24''"
  by code_simp

lemma last_pattern_found:
  "rx_search (patterns ! 8) ''5Q_3Q24'' = Some [(''year2'', ''24''), (''q'', ''3'')]"
  by code_simp

theorem filename_period_resolution_witness:
  "find_quarter_year_from_filename ''1Q25_results'' = Inr (Some ''Q1'', Some ''2025'')
   \<and> try_patterns [any_digit_quarter, patterns ! 8] ''5Q_3Q24'' = Inr (Some ''Q3'', Some ''2024'')"
proof
  let ?m = "[(''year2'', ''25''), (''q'', ''1'')]"
  note two_digit_year =
    filename_period_resolution [THEN conjunct2, THEN conjunct2, THEN conjunct2, THEN conjunct2,
      THEN conjunct2, THEN conjunct1, rule_format, of 8 "''1Q25_results''" ?m "''1''" "CHR ''2''" "''5''"]
  have "8 < length patterns"
    by (simp add: patterns_length)
  moreover have "\<forall>j<8. skipped (patterns ! j) ''1Q25_results''"
  proof (intro allI impI)
    fix j :: nat
    assume j: "j < 8"
    then have "j < length (take 8 patterns)"
      by (simp add: patterns_length)
    with earlier_patterns_1Q25_results have "skipped (take 8 patterns ! j) ''1Q25_results''"
      by (simp only: list_all_length)
    with j show "skipped (patterns ! j) ''1Q25_results''"
      by simp
  qed
  moreover have "rx_search (patterns ! 8) ''1Q25_results'' = Some ?m"
    by (rule last_pattern_1Q25_results)
  moreover have "group ?m ''q'' = Some ''1''" and "group ?m ''year2'' = Some (CHR ''2'' # ''5'')"
    by (simp_all add: group_def)
  moreover have "''1'' \<in> set [''1'', ''2'', ''3'', ''4'']"
    by simp
  ultimately have "find_quarter_year_from_filename ''1Q25_results'' =
      Inr (Some (''Q'' @ ''1''), Some (''20'' @ CHR ''2'' # ''5''))"
    by (intro two_digit_year conjI)
  then show "find_quarter_year_from_filename ''1Q25_results'' = Inr (Some ''Q1'', Some ''2025'')"
    by simp
next
  let ?ps = "[any_digit_quarter, patterns ! 8]"
  let ?m = "[(''year2'', ''24''), (''q'', ''3'')]"
  note first_match =
    filename_period_resolution [THEN conjunct2, THEN conjunct2, THEN conjunct2, THEN conjunct2,
      THEN conjunct2, THEN conjunct2, THEN conjunct2, THEN conjunct2, THEN conjunct2,
      THEN conjunct2, THEN conjunct2, THEN conjunct1,
      rule_format, of 1 ?ps "''5Q_3Q24''" ?m "''3''"]
  have "1 < length ?ps"
    by simp
  moreover have "\<forall>j<1. skipped (?ps ! j) ''5Q_3Q24''"
    using any_digit_quarter_skipped by simp
  moreover have "rx_search (?ps ! 1) ''5Q_3Q24'' = Some ?m"
    using last_pattern_found by simp
  moreover have "group ?m ''q'' = Some ''3''"
    by (simp add: group_def)
  moreover have "''3'' \<in> set [''1'', ''2'', ''3'', ''4'']"
    by simp
  ultimately have "try_patterns ?ps ''5Q_3Q24'' = Inr (Some (''Q'' @ ''3''), year_of_match ?m)"
    by (intro first_match conjI)
  moreover have "year_of_match ?m = Some ''2024''"
    by (simp add: group_def year_of_match_def)
  ultimately show "try_patterns ?ps ''5Q_3Q24'' = Inr (Some ''Q3'', Some ''2024'')"
    by simp
qed


section \<open>Properties of the spreadsheet locator\<close>

lemma detect_loop_past:
  "hq + 1 < n \<Longrightarrow> detect_loop (enumerate n rows) (Some hq) = (Some hq, None)"
  by (induction rows arbitrary: n) auto

lemma detect_loop_before:
  "\<forall>row \<in> set before. \<not> q_count row > 1 \<Longrightarrow>
   detect_loop (enumerate n (before @ rows)) None = detect_loop (enumerate (n + length before) rows) None"
  by (induction before arbitrary: n) auto

lemma detect_loop_none:
  "\<forall>row \<in> set rows. \<not> q_count row > 1 \<Longrightarrow> detect_loop (enumerate n rows) None = (None, None)"
  by (induction rows arbitrary: n) auto

lemma detect_loop_found:
  "q_count row > 1 \<Longrightarrow>
   detect_loop (enumerate n (row # rest)) None = detect_loop (enumerate (n + 1) rest) (Some n)"
  by simp

lemma detect_header_rows_first:
  assumes "q < length df" and "q_count (df ! q) > 1" and "\<forall>i<q. \<not> q_count (df ! i) > 1"
  shows "detect_header_rows df =
     (if q + 1 < length df \<and> year_count (df ! (q + 1)) > 1 then (Some q, Some (q + 1))
      else (Some q, None))"
proof -
  have df: "df = take q df @ df ! q # drop (Suc q) df"
    using assms(1) by (rule id_take_nth_drop)
  have before: "\<forall>row \<in> set (take q df). \<not> q_count row > 1"
    using assms(1,3) by (auto simp: in_set_conv_nth)
  have "detect_header_rows df = detect_loop (enumerate 0 (take q df @ df ! q # drop (Suc q) df)) None"
    unfolding detect_header_rows_def using df by simp
  also have "\<dots> = detect_loop (enumerate q (df ! q # drop (Suc q) df)) None"
    using detect_loop_before [OF before, of 0] assms(1) by simp
  also have "\<dots> = detect_loop (enumerate (q + 1) (drop (Suc q) df)) (Some q)"
    using assms(2) by (rule detect_loop_found)
  also have "\<dots> = (if q + 1 < length df \<and> year_count (df ! (q + 1)) > 1 then (Some q, Some (q + 1))
      else (Some q, None))"
  proof (cases "q + 1 < length df")
    case True
    then have "drop (Suc q) df = df ! (q + 1) # drop (Suc (Suc q)) df"
      by (simp add: Cons_nth_drop_Suc)
    with True show ?thesis
      by (simp add: detect_loop_past)
  next
    case False
    then have "drop (Suc q) df = []"
      by simp
    with False show ?thesis
      by simp
  qed
  finally show ?thesis .
qed

text \<open>The rows that \<open>detect_header_rows\<close> returns are rows of the frame, so the two
  \<^verbatim>\<open>iloc\<close> reads of the column locator are in range.\<close>

lemma detect_loop_in_range:
  "detect_loop (enumerate n rows) st = (hq, hy) \<Longrightarrow> (\<forall>q. st = Some q \<longrightarrow> q < n + length rows) \<Longrightarrow>
     (\<forall>q. hq = Some q \<longrightarrow> q < n + length rows) \<and> (\<forall>y. hy = Some y \<longrightarrow> y < n + length rows)"
proof (induction rows arbitrary: n st)
  case Nil
  then show ?case by auto
next
  case (Cons row rows)
  show ?case
  proof (cases "if q_count row > 1 \<and> st = None then Some n else st")
    case None
    with Cons.prems have "detect_loop (enumerate (Suc n) rows) None = (hq, hy)"
      by simp
    then show ?thesis
      using Cons.IH [of "Suc n" None] by simp
  next
    case (Some q)
    show ?thesis
    proof (cases "n = q + 1 \<and> year_count row > 1")
      case True
      with Some Cons.prems show ?thesis by auto
    next
      case False
      with Some Cons.prems have "detect_loop (enumerate (Suc n) rows) (Some q) = (hq, hy)"
        by auto
      moreover from Some Cons.prems(2) have "q < Suc n + length rows"
        by (auto split: if_splits)
      ultimately show ?thesis
        using Cons.IH [of "Suc n" "Some q"] by simp
    qed
  qed
qed

lemma detect_header_rows_in_range:
  "detect_header_rows df = (Some hq, Some hy) \<Longrightarrow> hq < length df \<and> hy < length df"
  using detect_loop_in_range [of 0 df None "Some hq" "Some hy"]
  by (simp add: detect_header_rows_def)

lemma detect_loop_year_row:
  "detect_loop (enumerate n rows) st = (hq, Some hy) \<Longrightarrow>
     (\<exists>q. hq = Some q \<and> hy = q + 1)"
proof (induction rows arbitrary: n st)
  case Nil
  then show ?case by simp
next
  case (Cons row rows)
  then show ?case
    by (auto split: option.splits if_splits)
qed


text \<open>
  Claim C8.  When the first row with more than one quarter token is not followed
  directly by a row with more than one four-digit cell, the year row is None (and the
  column locator returns (None, None)), whatever the later rows hold; when it is, the
  year row is that next row; a year row that is returned is always the quarter row's
  index plus one.
\<close>

theorem year_row_is_direct_successor:
  "(\<forall>df q. q < length df \<and> q_count (df ! q) > 1 \<and> (\<forall>i<q. \<not> q_count (df ! i) > 1)
       \<and> \<not> (q + 1 < length df \<and> year_count (df ! (q + 1)) > 1)
       \<longrightarrow> detect_header_rows df = (Some q, None)
           \<and> find_column_index_for_quarter_year df quarter year = (None, None))
   \<and> (\<forall>df q. q < length df \<and> q_count (df ! q) > 1 \<and> (\<forall>i<q. \<not> q_count (df ! i) > 1)
       \<and> q + 1 < length df \<and> year_count (df ! (q + 1)) > 1
       \<longrightarrow> detect_header_rows df = (Some q, Some (q + 1)))
   \<and> (\<forall>df hq hy. detect_header_rows df = (hq, Some hy) \<longrightarrow> hq = Some (hy - 1) \<and> 0 < hy)"
proof (intro conjI allI impI)
  fix df q
  assume a: "q < length df \<and> q_count (df ! q) > 1 \<and> (\<forall>i<q. \<not> q_count (df ! i) > 1)
       \<and> \<not> (q + 1 < length df \<and> year_count (df ! (q + 1)) > 1)"
  then show d: "detect_header_rows df = (Some q, None)"
    using detect_header_rows_first [of q df] by simp
  show "find_column_index_for_quarter_year df quarter year = (None, None)"
    by (simp add: find_column_index_for_quarter_year_def d)
next
  fix df q
  assume "q < length df \<and> q_count (df ! q) > 1 \<and> (\<forall>i<q. \<not> q_count (df ! i) > 1)
       \<and> q + 1 < length df \<and> year_count (df ! (q + 1)) > 1"
  then show "detect_header_rows df = (Some q, Some (q + 1))"
    using detect_header_rows_first [of q df] by simp
next
  fix df hq hy
  assume "detect_header_rows df = (hq, Some hy)"
  then obtain q where "hq = Some q" "hy = q + 1"
    unfolding detect_header_rows_def using detect_loop_year_row by blast
  then show "hq = Some (hy - 1)" "0 < hy" by simp_all
qed


lemma sheet_counts:
  "q_count (sheet ! 0) = 0" "q_count (sheet ! 1) = 2" "year_count (sheet ! 2) = 0"
  unfolding sheet_def by code_simp+

theorem year_row_is_direct_successor_witness:
  "detect_header_rows sheet = (Some 1, None) \<and> year_count (sheet ! 3) = 2"
proof -
  have "1 < length sheet \<and> q_count (sheet ! 1) > 1 \<and> (\<forall>i<1. \<not> q_count (sheet ! i) > 1)
       \<and> \<not> (1 + 1 < length sheet \<and> year_count (sheet ! (1 + 1)) > 1)"
    using sheet_counts by (simp add: sheet_def)
  then have "detect_header_rows sheet = (Some 1, None)"
    using year_row_is_direct_successor [THEN conjunct1, rule_format, of 1 sheet] by blast
  moreover have "year_count (sheet ! 3) = 2"
    unfolding sheet_def by code_simp
  ultimately show ?thesis by simp
qed

lemma column_loop_Some_iff:
  "column_loop (enumerate n cols) quarter year = Some c \<longleftrightarrow>
     n \<le> c \<and> c - n < length cols
     \<and> column_matches (fst (cols ! (c - n))) (snd (cols ! (c - n))) quarter year
     \<and> (\<forall>i < c - n. \<not> column_matches (fst (cols ! i)) (snd (cols ! i)) quarter year)"
proof (induction cols arbitrary: n)
  case Nil
  show ?case by simp
next
  case (Cons col cols)
  obtain q y where col: "col = (q, y)" by (cases col)
  show ?case
  proof (cases "column_matches q y quarter year")
    case True
    have "c = n" if "n \<le> c"
      and "\<forall>i < c - n. \<not> column_matches (fst ((col # cols) ! i)) (snd ((col # cols) ! i)) quarter year"
    proof (rule ccontr)
      assume "c \<noteq> n"
      with that(1) have "0 < c - n" by simp
      with that(2) have "\<not> column_matches (fst ((col # cols) ! 0)) (snd ((col # cols) ! 0)) quarter year"
        by blast
      with True show False by (simp add: col)
    qed
    with True show ?thesis
      by (auto simp: col)
  next
    case False
    have "column_loop (enumerate n (col # cols)) quarter year = column_loop (enumerate (Suc n) cols) quarter year"
      using False by (simp add: col)
    also have "\<dots> = Some c \<longleftrightarrow>
       Suc n \<le> c \<and> c - Suc n < length cols
     \<and> column_matches (fst (cols ! (c - Suc n))) (snd (cols ! (c - Suc n))) quarter year
     \<and> (\<forall>i < c - Suc n. \<not> column_matches (fst (cols ! i)) (snd (cols ! i)) quarter year)"
      by (rule Cons.IH)
    also have "\<dots> \<longleftrightarrow> n \<le> c \<and> c - n < length (col # cols)
     \<and> column_matches (fst ((col # cols) ! (c - n))) (snd ((col # cols) ! (c - n))) quarter year
     \<and> (\<forall>i < c - n. \<not> column_matches (fst ((col # cols) ! i)) (snd ((col # cols) ! i)) quarter year)"
      (is "?L \<longleftrightarrow> ?R")
    proof
      assume l: ?L
      then have c: "c - n = Suc (c - Suc n)" by arith
      from l show ?R
        unfolding c using False by (auto simp: col nth_Cons split: nat.splits)
    next
      assume r: ?R
      have "c \<noteq> n"
        using r False by (auto simp: col)
      with r have c: "c - n = Suc (c - Suc n)" and n: "Suc n \<le> c" by arith+
      from r n show ?L
        unfolding c by (auto simp: col)
    qed
    finally show ?thesis .
  qed
qed

lemma quarter_sets:
  "set (upper (strip ''3Q'')) = set (upper ''Q3'')" "set (upper (strip ''Q3'')) = set (upper ''3Q'')"
  by code_simp+

text \<open>
  Claim C7.  The test of a column compares the set of characters of the stripped,
  uppercased quarter cell with that of the uppercased target quarter, and the stripped
  year cell with the target year: a cell 3Q fits the target Q3 and a cell Q3 the target
  3Q exactly when the year cell, stripped, is the target year.  The column returned is
  the leftmost column that passes the test.
\<close>

theorem q3_matches_3q:
  "column_matches ''3Q'' y ''Q3'' year = (strip y = year)
   \<and> column_matches ''Q3'' y ''3Q'' year = (strip y = year)
   \<and> (\<forall>df quarter year hq hy c. detect_header_rows df = (Some hq, Some hy) \<longrightarrow>
        (find_column_index_for_quarter_year df quarter year = (Some hy, Some c)) =
        (c < min (length (df ! hq)) (length (df ! hy))
         \<and> column_matches (fillna_astype_str (df ! hq ! c)) (fillna_astype_str (df ! hy ! c)) quarter year
         \<and> (\<forall>c'<c. \<not> column_matches (fillna_astype_str (df ! hq ! c'))
                        (fillna_astype_str (df ! hy ! c')) quarter year)))"
proof (intro conjI allI impI)
  show "column_matches ''3Q'' y ''Q3'' year = (strip y = year)"
    using quarter_sets by (simp add: column_matches_def)
  show "column_matches ''Q3'' y ''3Q'' year = (strip y = year)"
    using quarter_sets by (simp add: column_matches_def)
next
  fix df quarter year hq hy c
  assume d: "detect_header_rows df = (Some hq, Some hy)"
  let ?cols = "zip (map fillna_astype_str (df ! hq)) (map fillna_astype_str (df ! hy))"
  have "find_column_index_for_quarter_year df quarter year =
      (Some hy, column_loop (enumerate 0 ?cols) quarter year)"
    by (simp add: find_column_index_for_quarter_year_def d)
  then show "(find_column_index_for_quarter_year df quarter year = (Some hy, Some c)) =
        (c < min (length (df ! hq)) (length (df ! hy))
         \<and> column_matches (fillna_astype_str (df ! hq ! c)) (fillna_astype_str (df ! hy ! c)) quarter year
         \<and> (\<forall>c'<c. \<not> column_matches (fillna_astype_str (df ! hq ! c'))
                        (fillna_astype_str (df ! hy ! c')) quarter year))"
    by (auto simp: column_loop_Some_iff)
qed


lemma headers_detected: "detect_header_rows headers = (Some 0, Some 1)"
  unfolding headers_def by code_simp

lemma headers_columns:
  "\<not> column_matches (fillna_astype_str (headers ! 0 ! 0)) (fillna_astype_str (headers ! 1 ! 0)) ''Q3'' ''2024''"
  "\<not> column_matches (fillna_astype_str (headers ! 0 ! 1)) (fillna_astype_str (headers ! 1 ! 1)) ''Q3'' ''2024''"
  "column_matches (fillna_astype_str (headers ! 0 ! 2)) (fillna_astype_str (headers ! 1 ! 2)) ''Q3'' ''2024''"
  "column_matches (fillna_astype_str (headers ! 0 ! 3)) (fillna_astype_str (headers ! 1 ! 3)) ''Q3'' ''2024''"
  unfolding headers_def by code_simp+

theorem q3_matches_3q_witness:
  "find_column_index_for_quarter_year headers ''Q3'' ''2024'' = (Some 1, Some 2)"
proof -
  have "\<forall>c'<2. \<not> column_matches (fillna_astype_str (headers ! 0 ! c'))
                        (fillna_astype_str (headers ! 1 ! c')) ''Q3'' ''2024''"
    using headers_columns(1,2) by (auto simp: less_Suc_eq numeral_2_eq_2)
  moreover have "2 < min (length (headers ! 0)) (length (headers ! 1))"
    by (simp add: headers_def)
  ultimately show ?thesis
    using q3_matches_3q [THEN conjunct2, THEN conjunct2, rule_format, OF headers_detected,
        of "''Q3''" "''2024''" 2] headers_columns(3)
    by blast
qed

text \<open>
  Claim C10.  The entry point returns the empty mapping when the located column index is
  0 or the located year row index is 0, although both were found.
\<close>

theorem zero_index_is_failure:
  "extract_below_header df (Some h, Some 0) = Inr Map.empty
   \<and> extract_below_header df (Some 0, Some c) = Inr Map.empty
   \<and> (\<forall>excel_path df q y header_row column_index.
         find_quarter_year_from_filename excel_path = Inr (Some q, Some y)
         \<and> find_column_index_for_quarter_year df q y = (header_row, column_index)
         \<and> (column_index = Some 0 \<or> header_row = Some 0)
         \<longrightarrow> get_metrics_values_from_excel excel_path df = Inr Map.empty)"
  by (auto simp: extract_below_header_def get_metrics_values_from_excel_def not_int_def)

lemma summary_period:
  "find_quarter_year_from_filename ''3Q24_summary.xlsx'' = Inr (Some ''Q3'', Some ''2024'')"
  by code_simp

lemma summary_located:
  "find_column_index_for_quarter_year summary ''Q3'' ''2024'' = (Some 1, Some 0)"
  unfolding summary_def by code_simp

theorem zero_index_is_failure_witness:
  "find_column_index_for_quarter_year summary ''Q3'' ''2024'' = (Some 1, Some 0)
   \<and> get_metrics_values_from_excel ''3Q24_summary.xlsx'' summary = Inr Map.empty"
  using zero_index_is_failure [THEN conjunct2, THEN conjunct2, rule_format,
      of "''3Q24_summary.xlsx''" "''Q3''" "''2024''" summary "Some 1" "Some 0"]
    summary_period summary_located
  by simp


section \<open>Properties of the selection of one value per metric\<close>

lemma find_split:
  "List.find P xs = Some x \<Longrightarrow> \<exists>ys zs. xs = ys @ x # zs \<and> P x \<and> (\<forall>y \<in> set ys. \<not> P y)"
proof (induction xs)
  case Nil
  then show ?case by simp
next
  case (Cons a xs)
  show ?case
  proof (cases "P a")
    case True
    with Cons.prems have "a = x" by simp
    with True show ?thesis by (intro exI [of _ "[]"] exI [of _ xs]) simp
  next
    case False
    with Cons.prems have "List.find P xs = Some x" by simp
    then obtain ys zs where "xs = ys @ x # zs" "P x" "\<forall>y \<in> set ys. \<not> P y"
      using Cons.IH by blast
    with False show ?thesis
      by (intro exI [of _ "a # ys"] exI [of _ zs]) simp
  qed
qed

lemma find_unique:
  assumes "x \<in> set xs" and "P x" and "\<And>y. y \<in> set xs \<Longrightarrow> P y \<Longrightarrow> y = x"
  shows "List.find P xs = Some x"
  using assms
proof (induction xs)
  case Nil
  then show ?case by simp
next
  case (Cons a xs)
  show ?case
  proof (cases "P a")
    case True
    then have "a = x" using Cons.prems(3) [of a] by simp
    with True show ?thesis by simp
  next
    case False
    with Cons.prems(1,2) have "x \<in> set xs" by auto
    then have "List.find P xs = Some x"
    proof (rule Cons.IH)
      show "P x" by (rule Cons.prems(2))
      show "y = x" if "y \<in> set xs" and "P y" for y
        using that Cons.prems(3) [of y] by simp
    qed
    with False show ?thesis by simp
  qed
qed

lemma map_filter_member:
  "y \<in> set (List.map_filter g xs) \<longleftrightarrow> (\<exists>x \<in> set xs. g x = Some y)"
  by (induction xs) (auto split: option.splits)

lemma find_in_set: "List.find P xs = Some x \<Longrightarrow> x \<in> set xs \<and> P x"
  by (induction xs) (auto split: if_splits)

lemma find_exists: "x \<in> set xs \<Longrightarrow> P x \<Longrightarrow> \<exists>y. List.find P xs = Some y"
  by (induction xs) auto

lemma filter_unique:
  "distinct (map f xs) \<Longrightarrow>
     filter (\<lambda>x. f x = k) xs = (case List.find (\<lambda>x. f x = k) xs of None \<Rightarrow> [] | Some x \<Rightarrow> [x])"
proof (induction xs)
  case Nil
  show ?case by simp
next
  case (Cons a xs)
  show ?case
  proof (cases "f a = k")
    case True
    from Cons.prems have "f a \<notin> f ` set xs" by simp
    with True have "\<forall>x \<in> set xs. f x \<noteq> k" by blast
    then have "filter (\<lambda>x. f x = k) xs = []" by (simp add: filter_empty_conv)
    with True show ?thesis by simp
  next
    case False
    with Cons show ?thesis by simp
  qed
qed

lemma groupby_size_keys:
  "map fst (groupby_size df) = sort (remdups (List.map_filter key_of df))"
  by (simp add: groupby_size_def Let_def comp_def)

lemma groupby_size_sorted: "sorted (map fst (groupby_size df))"
  by (simp add: groupby_size_keys)

lemma groupby_size_counts:
  "r \<in> set (groupby_size df) \<Longrightarrow>
     snd r = count_list (List.map_filter key_of df) (fst r) \<and> fst r \<in> set (List.map_filter key_of df)"
  by (auto simp: groupby_size_def Let_def)

lemma groupby_size_member:
  "k \<in> set (List.map_filter key_of df) \<Longrightarrow> (k, count_list (List.map_filter key_of df) k) \<in> set (groupby_size df)"
  by (auto simp: groupby_size_def Let_def)

lemma map_filter_find_metric:
  "\<forall>m \<in> set ms. m \<in> metric_of ` set rows \<Longrightarrow>
     map metric_of (List.map_filter (\<lambda>m. List.find (\<lambda>r. metric_of r = m) rows) ms) = ms"
proof (induction ms)
  case Nil
  show ?case by simp
next
  case (Cons m ms)
  then obtain x where "x \<in> set rows" "metric_of x = m" by auto
  then obtain r where r: "List.find (\<lambda>r. metric_of r = m) rows = Some r"
    using find_exists [of x rows "\<lambda>r. metric_of r = m"] by blast
  then have "metric_of r = m" using find_in_set by fast
  with r Cons show ?case by simp
qed

lemma groupby_metric_first_metrics:
  "map metric_of (groupby_metric_first rows) = sort (remdups (map metric_of rows))"
  unfolding groupby_metric_first_def
  by (rule map_filter_find_metric) simp

lemma groupby_metric_first_distinct: "distinct (map metric_of (groupby_metric_first rows))"
  by (simp add: groupby_metric_first_metrics)

lemma groupby_metric_first_member:
  "r \<in> set (groupby_metric_first rows) \<longleftrightarrow> List.find (\<lambda>r'. metric_of r' = metric_of r) rows = Some r"
proof
  assume "r \<in> set (groupby_metric_first rows)"
  then obtain m where m: "List.find (\<lambda>r'. metric_of r' = m) rows = Some r"
    unfolding groupby_metric_first_def map_filter_member by blast
  then have "metric_of r = m" using find_in_set by fast
  with m show "List.find (\<lambda>r'. metric_of r' = metric_of r) rows = Some r" by simp
next
  assume f: "List.find (\<lambda>r'. metric_of r' = metric_of r) rows = Some r"
  then have "r \<in> set rows" using find_in_set by fast
  then have "metric_of r \<in> set (sort (remdups (map metric_of rows)))" by simp
  with f show "r \<in> set (groupby_metric_first rows)"
    unfolding groupby_metric_first_def map_filter_member by blast
qed

lemma find_groupby_metric_first:
  "List.find (\<lambda>r. metric_of r = m) (groupby_metric_first rows) = List.find (\<lambda>r. metric_of r = m) rows"
proof (cases "List.find (\<lambda>r. metric_of r = m) rows")
  case None
  then have "\<forall>r \<in> set rows. metric_of r \<noteq> m" by (auto simp: find_None_iff)
  moreover have "set (groupby_metric_first rows) \<subseteq> set rows"
    using groupby_metric_first_member find_in_set by fast
  ultimately have "List.find (\<lambda>r. metric_of r = m) (groupby_metric_first rows) = None"
    unfolding find_None_iff by blast
  with None show ?thesis by simp
next
  case (Some r)
  then have m: "metric_of r = m" using find_in_set by fast
  with Some have r: "r \<in> set (groupby_metric_first rows)"
    by (simp add: groupby_metric_first_member)
  have uniq: "y = r" if "y \<in> set (groupby_metric_first rows)" and "metric_of y = m" for y
  proof -
    from that have "List.find (\<lambda>r'. metric_of r' = m) rows = Some y"
      by (simp add: groupby_metric_first_member)
    with Some show ?thesis by simp
  qed
  have "List.find (\<lambda>r. metric_of r = m) (groupby_metric_first rows) = Some r"
    using r m uniq by (rule find_unique)
  with Some show ?thesis by simp
qed


lemma merge_quarters_Cons:
  "\<exists>k. merge_quarters (r # selection) df = r # replicate k r @ merge_quarters selection df"
proof (cases "filter (\<lambda>ob. key_of ob = Some (fst r)) df")
  case Nil
  then show ?thesis
    by (intro exI [of _ 0]) (simp add: merge_quarters_def)
next
  case (Cons ob obs)
  then show ?thesis
    by (intro exI [of _ "length obs"]) (simp add: merge_quarters_def map_replicate_const)
qed

lemma merge_quarters_subset: "set (merge_quarters selection df) \<subseteq> set selection"
  by (auto simp: merge_quarters_def split: list.splits)

lemma drop_duplicates_merge_quarters:
  "distinct (map metric_of selection) \<Longrightarrow>
     drop_duplicates_metric (merge_quarters selection df) = selection"
proof (induction selection)
  case Nil
  show ?case by (simp add: merge_quarters_def)
next
  case (Cons r selection)
  obtain k where k: "merge_quarters (r # selection) df = r # replicate k r @ merge_quarters selection df"
    using merge_quarters_Cons by blast
  from Cons.prems have "metric_of r \<notin> metric_of ` set selection"
    by simp
  then have "\<forall>r' \<in> set (merge_quarters selection df). metric_of r' \<noteq> metric_of r"
    using merge_quarters_subset [of selection df] by (metis imageI subsetD)
  then have "filter (\<lambda>r'. metric_of r' \<noteq> metric_of r) (merge_quarters selection df) =
      merge_quarters selection df"
    by (simp add: filter_id_conv)
  moreover have "filter (\<lambda>r'. metric_of r' \<noteq> metric_of r) (replicate k r) = []"
    by simp
  ultimately have "drop_duplicates_metric (merge_quarters (r # selection) df) =
      r # drop_duplicates_metric (merge_quarters selection df)"
    by (simp add: k)
  with Cons show ?case by simp
qed

lemma concat_singletons: "concat (map (\<lambda>x. [g x]) xs) = map g xs"
  by (induction xs) simp_all

lemma merge_priority_distinct:
  assumes "distinct (map metric_of final_selection)"
  shows "merge_priority final_selection =
     map (\<lambda>(priority, m). (priority,
            case List.find (\<lambda>r. metric_of r = m) final_selection of
              None \<Rightarrow> \<lparr>rec_metric = m, rec_value = NaN, rec_unit = ''nan''\<rparr>
            | Some r \<Rightarrow> \<lparr>rec_metric = m, rec_value = Num (value_of r), rec_unit = unit_of r\<rparr>))
         (enumerate 1 metrics_priority)"
proof -
  have "(\<lambda>(priority :: nat, m).
          case filter (\<lambda>r. metric_of r = m) final_selection of
           [] \<Rightarrow> [(priority, \<lparr>rec_metric = m, rec_value = NaN, rec_unit = ''nan''\<rparr>)]
         | rs \<Rightarrow> map (\<lambda>r. (priority, \<lparr>rec_metric = m, rec_value = Num (value_of r),
                                       rec_unit = unit_of r\<rparr>)) rs) =
        (\<lambda>pm. [case pm of (priority, m) \<Rightarrow> (priority,
            case List.find (\<lambda>r. metric_of r = m) final_selection of
              None \<Rightarrow> \<lparr>rec_metric = m, rec_value = NaN, rec_unit = ''nan''\<rparr>
            | Some r \<Rightarrow> \<lparr>rec_metric = m, rec_value = Num (value_of r), rec_unit = unit_of r\<rparr>)])"
    by (intro ext) (simp add: filter_unique [OF assms] split: option.splits prod.splits)
  then show ?thesis
    unfolding merge_priority_def by (simp only: concat_singletons)
qed

lemma get_metrics_values_from_pdf_records:
  "extracted_data \<noteq> [] \<Longrightarrow>
   get_metrics_values_from_pdf quarter extracted_data =
     map (\<lambda>m. case List.find (\<lambda>r. metric_of r = m)
                     (sort_metric_counts (groupby_size (filter_quarter extracted_data quarter))) of
                 None \<Rightarrow> \<lparr>rec_metric = m, rec_value = NaN, rec_unit = ''nan''\<rparr>
               | Some r \<Rightarrow> \<lparr>rec_metric = m, rec_value = Num (value_of r), rec_unit = unit_of r\<rparr>)
         metrics_priority"
proof -
  let ?sorted = "sort_metric_counts (groupby_size (filter_quarter extracted_data quarter))"
  let ?sel = "groupby_metric_first ?sorted"
  let ?rec = "\<lambda>m. case List.find (\<lambda>r. metric_of r = m) ?sel of
                 None \<Rightarrow> \<lparr>rec_metric = m, rec_value = NaN, rec_unit = ''nan''\<rparr>
               | Some r \<Rightarrow> \<lparr>rec_metric = m, rec_value = Num (value_of r), rec_unit = unit_of r\<rparr>"
  assume "extracted_data \<noteq> []"
  have d: "distinct (map metric_of ?sel)"
    by (rule groupby_metric_first_distinct)
  have dd: "drop_duplicates_metric (merge_quarters ?sel (filter_quarter extracted_data quarter)) = ?sel"
    using d by (rule drop_duplicates_merge_quarters)
  have mp: "merge_priority ?sel = map (\<lambda>(priority, m). (priority, ?rec m)) (enumerate 1 metrics_priority)"
    using d by (rule merge_priority_distinct)
  have "map fst (merge_priority ?sel) = map fst (enumerate 1 metrics_priority)"
    unfolding mp by (simp add: case_prod_beta comp_def)
  then have "sorted (map fst (merge_priority ?sel))"
    by (simp add: metrics_priority_def)
  then have "sort_key fst (merge_priority ?sel) = merge_priority ?sel"
    by (rule sort_key_id_if_sorted)
  moreover have "map snd (merge_priority ?sel) = map ?rec metrics_priority"
  proof -
    have "map snd (merge_priority ?sel) = map (?rec \<circ> snd) (enumerate 1 metrics_priority)"
      unfolding mp by (simp add: case_prod_beta comp_def)
    also have "\<dots> = map ?rec (map snd (enumerate 1 metrics_priority))"
      by (simp only: map_map)
    finally show ?thesis
      by (simp only: map_snd_enumerate)
  qed
  ultimately have "get_metrics_values_from_pdf quarter extracted_data = map ?rec metrics_priority"
    using \<open>extracted_data \<noteq> []\<close> by (simp add: get_metrics_values_from_pdf_def dd Let_def)
  then show ?thesis
    by (simp only: find_groupby_metric_first)
qed

lemma count_list_keys:
  "count_list (List.map_filter key_of df) k = occurrences df k"
  by (induction df) (auto simp: occurrences_def split: option.splits)

lemma keys_member:
  "k \<in> set (List.map_filter key_of df) \<longleftrightarrow> 0 < occurrences df k"
proof -
  have "k \<in> set (List.map_filter key_of df) \<longleftrightarrow> 0 < count_list (List.map_filter key_of df) k"
    using count_list_0_iff [of "List.map_filter key_of df" k] by auto
  then show ?thesis
    by (simp only: count_list_keys)
qed

lemma groupby_size_rows:
  "r \<in> set (groupby_size df) \<longleftrightarrow> 0 < occurrences df (fst r) \<and> counts r = occurrences df (fst r)"
proof
  assume "r \<in> set (groupby_size df)"
  then show "0 < occurrences df (fst r) \<and> counts r = occurrences df (fst r)"
    using groupby_size_counts [of r df] by (simp add: counts_def count_list_keys keys_member)
next
  assume a: "0 < occurrences df (fst r) \<and> counts r = occurrences df (fst r)"
  then have "(fst r, count_list (List.map_filter key_of df) (fst r)) \<in> set (groupby_size df)"
    by (intro groupby_size_member) (simp add: keys_member)
  moreover have "r = (fst r, count_list (List.map_filter key_of df) (fst r))"
    using a by (simp add: counts_def count_list_keys prod_eq_iff)
  ultimately show "r \<in> set (groupby_size df)"
    by simp
qed

lemma first_of_metric:
  assumes f: "List.find (\<lambda>r. metric_of r = m) (sort_metric_counts rows) = Some r"
    and s: "sorted (map fst rows)"
  shows "r \<in> set rows" and "metric_of r = m"
    and "\<And>r'. r' \<in> set rows \<Longrightarrow> metric_of r' = m \<Longrightarrow> counts r' \<le> counts r"
    and "\<And>r'. r' \<in> set rows \<Longrightarrow> metric_of r' = m \<Longrightarrow> counts r' = counts r \<Longrightarrow> fst r \<le> fst r'"
proof -
  let ?kf = "\<lambda>r. (metric_of r, - int (counts r))"
  let ?S = "sort_key ?kf rows"
  from f obtain ys zs where S: "?S = ys @ r # zs" and m: "metric_of r = m"
    and ys: "\<forall>y \<in> set ys. metric_of y \<noteq> m"
    unfolding sort_metric_counts_def using find_split by fast
  have "set ?S = set rows" by simp
  then have mem: "set rows = set ys \<union> {r} \<union> set zs"
    unfolding S by auto
  then show "r \<in> set rows" by simp
  show "metric_of r = m" by (rule m)
  have "sorted (map ?kf ?S)" by (rule sorted_sort_key)
  then have "sorted (map ?kf (r # zs))"
    unfolding S by (simp add: sorted_append)
  then have zs: "\<forall>z \<in> set zs. ?kf r \<le> ?kf z" by simp
  show "counts r' \<le> counts r" if "r' \<in> set rows" and "metric_of r' = m" for r'
  proof -
    from that mem ys have "r' = r \<or> r' \<in> set zs" by auto
    then show ?thesis
    proof
      assume "r' = r" then show ?thesis by simp
    next
      assume "r' \<in> set zs"
      with zs have "?kf r \<le> ?kf r'" by blast
      with that(2) m show ?thesis by simp
    qed
  qed
  show "fst r \<le> fst r'" if "r' \<in> set rows" and "metric_of r' = m" and "counts r' = counts r" for r'
  proof -
    have "filter (\<lambda>y. ?kf y = ?kf r) ?S = filter (\<lambda>y. ?kf y = ?kf r) rows"
      by (rule sort_key_stable)
    moreover have "filter (\<lambda>y. ?kf y = ?kf r) ys = []"
      using ys m by (auto simp: filter_empty_conv)
    ultimately have eq: "filter (\<lambda>y. ?kf y = ?kf r) rows = r # filter (\<lambda>y. ?kf y = ?kf r) zs"
      unfolding S by simp
    have "sorted (map fst (filter (\<lambda>y. ?kf y = ?kf r) rows))"
      using s by (rule sorted_filter)
    then have le: "\<forall>x \<in> set (filter (\<lambda>y. ?kf y = ?kf r) zs). fst r \<le> fst x"
      unfolding eq by simp
    from that m have "r' \<in> set (filter (\<lambda>y. ?kf y = ?kf r) rows)" by simp
    then have "r' = r \<or> r' \<in> set (filter (\<lambda>y. ?kf y = ?kf r) zs)"
      unfolding eq by simp
    then show ?thesis
    proof
      assume "r' = r" then show ?thesis by simp
    next
      assume "r' \<in> set (filter (\<lambda>y. ?kf y = ?kf r) zs)"
      with le show ?thesis by (rule bspec)
    qed
  qed
qed

lemma occurrences_observation:
  "0 < occurrences df k \<Longrightarrow> \<exists>ob \<in> set df. obs_metric ob = fst k"
proof -
  assume "0 < occurrences df k"
  then have "filter (\<lambda>ob. key_of ob = Some k) df \<noteq> []"
    by (simp add: occurrences_def)
  then obtain ob where "ob \<in> set df" "key_of ob = Some k"
    by (auto simp: filter_empty_conv)
  then show ?thesis
    by (auto simp: key_of_def split: option.splits)
qed

lemma no_row_without_observation:
  assumes "\<forall>ob \<in> set df. obs_metric ob \<noteq> m"
  shows "List.find (\<lambda>r. metric_of r = m) (sort_metric_counts (groupby_size df)) = None"
proof -
  have "metric_of r \<noteq> m" if "r \<in> set (groupby_size df)" for r
  proof -
    from that have "0 < occurrences df (fst r)"
      by (simp add: groupby_size_rows)
    then obtain ob where "ob \<in> set df" "obs_metric ob = fst (fst r)"
      using occurrences_observation by blast
    with assms show ?thesis
      by (auto simp: metric_of_def)
  qed
  then show ?thesis
    by (auto simp: find_None_iff sort_metric_counts_def)
qed

lemma rec_metric_case:
  "rec_metric (case row of
                 None \<Rightarrow> \<lparr>rec_metric = m, rec_value = NaN, rec_unit = ''nan''\<rparr>
               | Some r \<Rightarrow> \<lparr>rec_metric = m, rec_value = Num (value_of r), rec_unit = unit_of r\<rparr>) = m"
  by (cases row) simp_all

lemma records_metrics:
  "extracted_data \<noteq> [] \<Longrightarrow>
     map rec_metric (get_metrics_values_from_pdf quarter extracted_data) = metrics_priority"
  by (simp add: get_metrics_values_from_pdf_records comp_def rec_metric_case)

lemma cet1_only_records:
  "get_metrics_values_from_pdf ''Q3'' cet1_only =
     [\<lparr>rec_metric = ''CET1 Capital Ratio'', rec_value = Num 13.6, rec_unit = ''%''\<rparr>,
      \<lparr>rec_metric = ''Tangible book value per share'', rec_value = NaN, rec_unit = ''nan''\<rparr>,
      \<lparr>rec_metric = ''Book value per share'', rec_value = NaN, rec_unit = ''nan''\<rparr>,
      \<lparr>rec_metric = ''Net income'', rec_value = NaN, rec_unit = ''nan''\<rparr>,
      \<lparr>rec_metric = ''Revenues'', rec_value = NaN, rec_unit = ''nan''\<rparr>]"
  unfolding cet1_only_def by code_simp

lemma cet1_only_filtered:
  "map obs_metric (filter_quarter cet1_only ''Q3'') = [''CET1 Capital Ratio'']"
  unfolding cet1_only_def by code_simp

text \<open>
  Claim C3, as stated, fails: with one surviving observation, of the capital ratio, the
  metric Revenues has no surviving observation and is still in the returned list, with
  value NaN and unit \<^verbatim>\<open>nan\<close>.
\<close>

theorem revenues_emitted_without_observation:
  "map obs_metric (filter_quarter cet1_only ''Q3'') = [''CET1 Capital Ratio'']
   \<and> get_metrics_values_from_pdf ''Q3'' cet1_only ! 4 =
       \<lparr>rec_metric = ''Revenues'', rec_value = NaN, rec_unit = ''nan''\<rparr>
   \<and> ''Revenues'' \<in> set (map rec_metric (get_metrics_values_from_pdf ''Q3'' cet1_only))"
  using cet1_only_records cet1_only_filtered by simp

text \<open>
  Claim C3, amended.  For a non-empty list of extracted observations the returned list
  has exactly one record for each of the five metrics, in the order of the priority
  list, and a metric without a surviving observation has the record with value NaN and
  unit \<^verbatim>\<open>nan\<close>; the result is empty only when nothing at all was extracted.
\<close>

theorem every_metric_has_a_record:
  "get_metrics_values_from_pdf quarter [] = []
   \<and> (extracted_data \<noteq> [] \<longrightarrow>
        map rec_metric (get_metrics_values_from_pdf quarter extracted_data) = metrics_priority
        \<and> (\<forall>m \<in> set metrics_priority.
              (\<forall>ob \<in> set (filter_quarter extracted_data quarter). obs_metric ob \<noteq> m) \<longrightarrow>
              \<lparr>rec_metric = m, rec_value = NaN, rec_unit = ''nan''\<rparr>
                \<in> set (get_metrics_values_from_pdf quarter extracted_data)))"
proof (intro conjI impI ballI)
  show "get_metrics_values_from_pdf quarter [] = []"
    by (simp add: get_metrics_values_from_pdf_def)
next
  assume "extracted_data \<noteq> []"
  then show "map rec_metric (get_metrics_values_from_pdf quarter extracted_data) = metrics_priority"
    by (rule records_metrics)
next
  fix m
  assume ne: "extracted_data \<noteq> []" and m: "m \<in> set metrics_priority"
    and no: "\<forall>ob \<in> set (filter_quarter extracted_data quarter). obs_metric ob \<noteq> m"
  from no have "List.find (\<lambda>r. metric_of r = m)
      (sort_metric_counts (groupby_size (filter_quarter extracted_data quarter))) = None"
    by (rule no_row_without_observation)
  then have eq: "\<lparr>rec_metric = m, rec_value = NaN, rec_unit = ''nan''\<rparr> =
      (\<lambda>m. case List.find (\<lambda>r. metric_of r = m)
                     (sort_metric_counts (groupby_size (filter_quarter extracted_data quarter))) of
                 None \<Rightarrow> \<lparr>rec_metric = m, rec_value = NaN, rec_unit = ''nan''\<rparr>
               | Some r \<Rightarrow> \<lparr>rec_metric = m, rec_value = Num (value_of r), rec_unit = unit_of r\<rparr>) m"
    by simp
  from eq m show "\<lparr>rec_metric = m, rec_value = NaN, rec_unit = ''nan''\<rparr>
      \<in> set (get_metrics_values_from_pdf quarter extracted_data)"
    unfolding get_metrics_values_from_pdf_records [OF ne] set_map by (rule image_eqI)
qed

theorem every_metric_has_a_record_witness:
  "\<lparr>rec_metric = ''Net income'', rec_value = NaN, rec_unit = ''nan''\<rparr>
     \<in> set (get_metrics_values_from_pdf ''Q3'' cet1_only)"
proof -
  have "cet1_only \<noteq> []"
    by (simp add: cet1_only_def)
  moreover have "''Net income'' \<in> set metrics_priority"
    by (simp add: metrics_priority_def)
  moreover have "\<forall>ob \<in> set (filter_quarter cet1_only ''Q3''). obs_metric ob \<noteq> ''Net income''"
    by (simp add: cet1_only_def filter_quarter_def)
  ultimately show ?thesis
    using every_metric_has_a_record [of "''Q3''" cet1_only] by blast
qed

lemma no_row_iff_no_occurrence:
  "List.find (\<lambda>r. metric_of r = m) (sort_metric_counts (groupby_size df)) = None
     \<longleftrightarrow> (\<forall>v u. occurrences df (m, v, u) = 0)"
proof
  assume none: "List.find (\<lambda>r. metric_of r = m) (sort_metric_counts (groupby_size df)) = None"
  show "\<forall>v u. occurrences df (m, v, u) = 0"
  proof (intro allI, rule ccontr)
    fix v u
    assume "occurrences df (m, v, u) \<noteq> 0"
    then have "((m, v, u), occurrences df (m, v, u)) \<in> set (groupby_size df)"
      by (simp add: groupby_size_rows counts_def)
    moreover have "metric_of ((m, v, u), occurrences df (m, v, u)) = m"
      by (simp add: metric_of_def)
    ultimately show False
      using none unfolding find_None_iff sort_metric_counts_def set_sort by blast
  qed
next
  assume zero: "\<forall>v u. occurrences df (m, v, u) = 0"
  have "metric_of r \<noteq> m" if "r \<in> set (groupby_size df)" for r
  proof
    assume "metric_of r = m"
    then have "fst r = (m, fst (snd (fst r)), snd (snd (fst r)))"
      by (simp add: metric_of_def prod_eq_iff)
    moreover from that have "0 < occurrences df (fst r)"
      by (simp add: groupby_size_rows)
    ultimately show False
      using zero by (metis less_numeral_extra(3))
  qed
  then show "List.find (\<lambda>r. metric_of r = m) (sort_metric_counts (groupby_size df)) = None"
    unfolding find_None_iff sort_metric_counts_def set_sort by blast
qed

lemma selected_row:
  assumes f: "List.find (\<lambda>r. metric_of r = m) (sort_metric_counts (groupby_size df)) = Some r"
  shows "0 < occurrences df (m, value_of r, unit_of r)"
    and "occurrences df (m, v', u') \<le> occurrences df (m, value_of r, unit_of r)"
    and "occurrences df (m, v', u') = occurrences df (m, value_of r, unit_of r)
           \<Longrightarrow> value_of r < v' \<or> (value_of r = v' \<and> unit_of r \<le> u')"
proof -
  note first = first_of_metric [OF f groupby_size_sorted]
  have key: "fst r = (m, value_of r, unit_of r)"
    using first(2) by (simp add: metric_of_def value_of_def unit_of_def prod_eq_iff)
  from first(1) have r: "0 < occurrences df (fst r)" "counts r = occurrences df (fst r)"
    by (simp_all add: groupby_size_rows)
  from r(1) show pos: "0 < occurrences df (m, value_of r, unit_of r)"
    by (simp only: key)
  let ?r' = "((m, v', u'), occurrences df (m, v', u'))"
  have r': "?r' \<in> set (groupby_size df)" if "0 < occurrences df (m, v', u')"
    using that by (simp add: groupby_size_rows counts_def)
  have m': "metric_of ?r' = m"
    by (simp add: metric_of_def)
  show "occurrences df (m, v', u') \<le> occurrences df (m, value_of r, unit_of r)"
  proof (cases "0 < occurrences df (m, v', u')")
    case True
    then have "counts ?r' \<le> counts r"
      using first(3) [OF r' m'] by simp
    then show ?thesis
      using r(2) by (simp add: counts_def key)
  next
    case False
    then show ?thesis by simp
  qed
  show "value_of r < v' \<or> (value_of r = v' \<and> unit_of r \<le> u')"
    if eq: "occurrences df (m, v', u') = occurrences df (m, value_of r, unit_of r)"
  proof -
    from eq pos have p: "0 < occurrences df (m, v', u')" by simp
    have "counts ?r' = counts r"
      using eq r(2) by (simp add: counts_def key)
    then have "fst r \<le> fst ?r'"
      using first(4) [OF r' [OF p] m'] by simp
    then have "(m, value_of r, unit_of r) \<le> (m, v', u')"
      by (simp only: key fst_conv)
    then show ?thesis
      by auto
  qed
qed

lemma net_income_twice_records:
  "get_metrics_values_from_pdf ''Q3'' net_income_twice =
     [\<lparr>rec_metric = ''CET1 Capital Ratio'', rec_value = NaN, rec_unit = ''nan''\<rparr>,
      \<lparr>rec_metric = ''Tangible book value per share'', rec_value = NaN, rec_unit = ''nan''\<rparr>,
      \<lparr>rec_metric = ''Book value per share'', rec_value = NaN, rec_unit = ''nan''\<rparr>,
      \<lparr>rec_metric = ''Net income'', rec_value = Num 3, rec_unit = ''B''\<rparr>,
      \<lparr>rec_metric = ''Revenues'', rec_value = NaN, rec_unit = ''nan''\<rparr>]"
  unfolding net_income_twice_def by code_simp

lemma net_income_twice_occurrences:
  "map obs_value (filter_quarter net_income_twice ''Q3'') = [5, 3]"
  "occurrences (filter_quarter net_income_twice ''Q3'') (''Net income'', 5, ''B'') = 1"
  "occurrences (filter_quarter net_income_twice ''Q3'') (''Net income'', 3, ''B'') = 1"
  unfolding net_income_twice_def by code_simp+

text \<open>
  Claim C6, as stated, fails: of two net income groups with one observation each, the
  one seen first (value 5) is not the one selected (value 3).
\<close>

theorem first_seen_group_not_selected:
  "map obs_value (filter_quarter net_income_twice ''Q3'') = [5, 3]
   \<and> occurrences (filter_quarter net_income_twice ''Q3'') (''Net income'', 5, ''B'') = 1
   \<and> occurrences (filter_quarter net_income_twice ''Q3'') (''Net income'', 3, ''B'') = 1
   \<and> get_metrics_values_from_pdf ''Q3'' net_income_twice ! 3 =
       \<lparr>rec_metric = ''Net income'', rec_value = Num 3, rec_unit = ''B''\<rparr>"
  using net_income_twice_records net_income_twice_occurrences by simp

text \<open>
  Claim C6, amended.  Per metric, among the groups of surviving observations that have
  a unit, the selected (value, unit) group has the highest count, and of the groups with
  that count it is the one with the smallest value and, for equal values, the smallest
  unit text; a metric without such a group has value NaN.
\<close>

theorem most_frequent_group_smallest_key:
  assumes "extracted_data \<noteq> []" and "m \<in> set metrics_priority"
  shows "map rec_metric (get_metrics_values_from_pdf quarter extracted_data) = metrics_priority
   \<and> (\<exists>val u.
        \<lparr>rec_metric = m, rec_value = val, rec_unit = u\<rparr>
          \<in> set (get_metrics_values_from_pdf quarter extracted_data)
        \<and> (case val of
             NaN \<Rightarrow> \<forall>v' u'. occurrences (filter_quarter extracted_data quarter) (m, v', u') = 0
           | Num v \<Rightarrow>
               0 < occurrences (filter_quarter extracted_data quarter) (m, v, u)
               \<and> (\<forall>v' u'. occurrences (filter_quarter extracted_data quarter) (m, v', u')
                            \<le> occurrences (filter_quarter extracted_data quarter) (m, v, u))
               \<and> (\<forall>v' u'. occurrences (filter_quarter extracted_data quarter) (m, v', u')
                              = occurrences (filter_quarter extracted_data quarter) (m, v, u)
                            \<longrightarrow> v < v' \<or> (v = v' \<and> u \<le> u'))))"
proof
  show "map rec_metric (get_metrics_values_from_pdf quarter extracted_data) = metrics_priority"
    using assms(1) by (rule records_metrics)
next
  let ?df = "filter_quarter extracted_data quarter"
  let ?rec = "\<lambda>m. case List.find (\<lambda>r. metric_of r = m) (sort_metric_counts (groupby_size ?df)) of
                 None \<Rightarrow> \<lparr>rec_metric = m, rec_value = NaN, rec_unit = ''nan''\<rparr>
               | Some r \<Rightarrow> \<lparr>rec_metric = m, rec_value = Num (value_of r), rec_unit = unit_of r\<rparr>"
  have mem: "?rec m \<in> set (get_metrics_values_from_pdf quarter extracted_data)"
    unfolding get_metrics_values_from_pdf_records [OF assms(1)] set_map
    using assms(2) by (rule imageI)
  show "\<exists>val u.
        \<lparr>rec_metric = m, rec_value = val, rec_unit = u\<rparr>
          \<in> set (get_metrics_values_from_pdf quarter extracted_data)
        \<and> (case val of
             NaN \<Rightarrow> \<forall>v' u'. occurrences ?df (m, v', u') = 0
           | Num v \<Rightarrow>
               0 < occurrences ?df (m, v, u)
               \<and> (\<forall>v' u'. occurrences ?df (m, v', u') \<le> occurrences ?df (m, v, u))
               \<and> (\<forall>v' u'. occurrences ?df (m, v', u') = occurrences ?df (m, v, u)
                            \<longrightarrow> v < v' \<or> (v = v' \<and> u \<le> u')))"
  proof (cases "List.find (\<lambda>r. metric_of r = m) (sort_metric_counts (groupby_size ?df))")
    case None
    then have "\<forall>v' u'. occurrences ?df (m, v', u') = 0"
      by (simp add: no_row_iff_no_occurrence)
    moreover from None mem have "\<lparr>rec_metric = m, rec_value = NaN, rec_unit = ''nan''\<rparr>
        \<in> set (get_metrics_values_from_pdf quarter extracted_data)"
      by simp
    ultimately show ?thesis
      by (intro exI [of _ NaN] exI [of _ "''nan''"]) simp
  next
    case (Some r)
    note sel = selected_row [OF Some]
    from Some mem have "\<lparr>rec_metric = m, rec_value = Num (value_of r), rec_unit = unit_of r\<rparr>
        \<in> set (get_metrics_values_from_pdf quarter extracted_data)"
      by simp
    then show ?thesis
      using sel by (intro exI [of _ "Num (value_of r)"] exI [of _ "unit_of r"]) simp
  qed
qed

theorem most_frequent_group_smallest_key_witness:
  "\<lparr>rec_metric = ''Net income'', rec_value = Num 3, rec_unit = ''B''\<rparr>
     \<in> set (get_metrics_values_from_pdf ''Q3'' net_income_twice)"
proof -
  have "net_income_twice \<noteq> []"
    by (simp add: net_income_twice_def)
  moreover have "''Net income'' \<in> set metrics_priority"
    by (simp add: metrics_priority_def)
  ultimately obtain val u where
    "\<lparr>rec_metric = ''Net income'', rec_value = val, rec_unit = u\<rparr>
       \<in> set (get_metrics_values_from_pdf ''Q3'' net_income_twice)"
    using most_frequent_group_smallest_key [of net_income_twice "''Net income''" "''Q3''"] by blast
  then show ?thesis
    by (simp add: net_income_twice_records)
qed


section \<open>Properties of the fuzzy row matcher\<close>

lemma levenshtein_same: "levenshtein s s = 0"
  by (induction s) simp_all

lemma levenshtein_Cons_right: "levenshtein s (b # t) \<le> levenshtein s t + 1"
  by (cases s) simp_all

lemma levenshtein_prefix: "levenshtein s (p @ s) \<le> length p"
proof (induction p)
  case Nil
  show ?case by (simp add: levenshtein_same)
next
  case (Cons b p)
  have "levenshtein s ((b # p) @ s) \<le> levenshtein s (p @ s) + 1"
    using levenshtein_Cons_right [of s b "p @ s"] by simp
  with Cons show ?case by simp
qed

lemma levenshtein_lower: "length t - length s \<le> levenshtein s t"
  by (induction s t rule: levenshtein.induct) auto

lemma levenshtein_prefix_eq: "levenshtein s (p @ s) = length p"
  using levenshtein_prefix [of s p] levenshtein_lower [of "p @ s" s] by simp

lemma score_same: "get_edit_distance_score s s = 100"
  by (simp add: get_edit_distance_score_def levenshtein_same)

lemma score_upper: "get_edit_distance_score s t \<le> 100"
  by (simp add: get_edit_distance_score_def Let_def)

lemma score_book_value:
  "get_edit_distance_score ''book value per share'' ''tangible book value per share'' = 2000 / 29"
proof -
  have "levenshtein ''book value per share'' (''tangible '' @ ''book value per share'') = length ''tangible ''"
    by (rule levenshtein_prefix_eq)
  moreover have "''tangible '' @ ''book value per share'' = ''tangible book value per share''"
    by simp
  moreover have "length ''tangible '' = 9"
    by simp
  ultimately have "levenshtein ''book value per share'' ''tangible book value per share'' = 9"
    by (simp only:)
  moreover have "max (length ''book value per share'') (length ''tangible book value per share'') = 29"
    by simp
  ultimately show ?thesis
    unfolding get_edit_distance_score_def Let_def by (simp del: levenshtein.simps)
qed

lemma tangible_row_contained:
  "is_loosely_contained_nltk_no_punctuation (lower ''Tangible book value per share'')
     ''tangible book value per share 55.10''"
  "is_loosely_contained_nltk_no_punctuation (lower ''Book value per share'')
     ''tangible book value per share 55.10''"
  by code_simp+

lemma tangible_row_stripped:
  "strip_trailing_numbers ''tangible book value per share 55.10'' = ''tangible book value per share''"
  by code_simp

lemma lower_metrics:
  "lower ''Tangible book value per share'' = ''tangible book value per share''"
  "lower ''Book value per share'' = ''book value per share''"
  by code_simp+

lemma tangible_row_scores:
  assumes "lower (row_text row) = ''tangible book value per share 55.10''"
  shows "candidate_score (lower ''Tangible book value per share'') row = Some 100"
    and "candidate_score (lower ''Book value per share'') row = Some (2000 / 29)"
proof -
  from assms have ne: "row_text row \<noteq> []"
    by (auto simp: lower_def)
  show "candidate_score (lower ''Tangible book value per share'') row = Some 100"
    using ne tangible_row_contained(1)
    by (simp add: candidate_score_def assms tangible_row_stripped lower_metrics score_same)
  show "candidate_score (lower ''Book value per share'') row = Some (2000 / 29)"
    using ne tangible_row_contained(2)
    by (simp add: candidate_score_def assms tangible_row_stripped lower_metrics score_book_value)
qed

lemma row_get_Inr: "c < length row \<Longrightarrow> row_get row c = Inr (row ! c)"
  by (simp add: row_get_def)

lemma scan_rows_append:
  "scan_rows nm t c (xs @ ys) st = bind (scan_rows nm t c xs st) (scan_rows nm t c ys)"
proof (induction xs arbitrary: st)
  case Nil
  show ?case by simp
next
  case (Cons x xs)
  obtain j row where x: "x = (j, row)" by (cases x)
  obtain bs bv where st: "st = (bs, bv)" by (cases st)
  show ?case
    unfolding x st
    by (cases "row_get row c") (simp_all add: Cons.IH split: option.splits)
qed

lemma scan_rows_keep:
  assumes "\<forall>(j, row) \<in> set rows. t \<le> j \<longrightarrow> (\<forall>x. candidate_score nm row = Some x \<longrightarrow> x \<le> fst st)"
  shows "scan_rows nm t c rows st = Inr st"
  using assms
proof (induction rows)
  case Nil
  show ?case by simp
next
  case (Cons r rows)
  obtain j row where r: "r = (j, row)" by (cases r)
  obtain bs bv where st: "st = (bs, bv)" by (cases st)
  from Cons.prems have rest: "scan_rows nm t c rows st = Inr st"
    by (intro Cons.IH) simp
  from Cons.prems have "t \<le> j \<Longrightarrow> candidate_score nm row = Some x \<Longrightarrow> x \<le> bs" for x
    by (simp add: r st)
  then show ?case
    using rest unfolding r st by (auto split: option.splits)
qed

lemma scan_rows_below:
  assumes "\<forall>(j, row) \<in> set rows. c < length row"
    and "fst st < s"
    and "\<forall>(j, row) \<in> set rows. t \<le> j \<longrightarrow> (\<forall>x. candidate_score nm row = Some x \<longrightarrow> x < s)"
  shows "\<exists>st'. scan_rows nm t c rows st = Inr st' \<and> fst st' < s"
  using assms
proof (induction rows arbitrary: st)
  case Nil
  then show ?case by simp
next
  case (Cons r rows)
  obtain j row where r: "r = (j, row)" by (cases r)
  obtain bs bv where st: "st = (bs, bv)" by (cases st)
  have cols: "\<forall>(j, row) \<in> set rows. c < length row"
    and cands: "\<forall>(j, row) \<in> set rows. t \<le> j \<longrightarrow> (\<forall>x. candidate_score nm row = Some x \<longrightarrow> x < s)"
    using Cons.prems by simp_all
  have c: "c < length row"
    using Cons.prems(1) by (simp add: r)
  have step: "\<exists>st'. scan_rows nm t c rows st1 = Inr st' \<and> fst st' < s" if "fst st1 < s" for st1
    using cols that cands by (rule Cons.IH)
  show ?case
  proof (cases "t \<le> j \<and> (\<exists>x. candidate_score nm row = Some x \<and> bs < x)")
    case True
    then obtain x where x: "candidate_score nm row = Some x" "bs < x" by blast
    with True Cons.prems(3) have "x < s" by (simp add: r)
    then have "\<exists>st'. scan_rows nm t c rows (x, Some (row ! c)) = Inr st' \<and> fst st' < s"
      by (intro step) simp
    with True x c show ?thesis
      unfolding r st by (simp add: row_get_Inr)
  next
    case False
    then have "scan_rows nm t c ((j, row) # rows) (bs, bv) = scan_rows nm t c rows (bs, bv)"
      by (auto split: option.splits)
    moreover have "\<exists>st'. scan_rows nm t c rows (bs, bv) = Inr st' \<and> fst st' < s"
      using Cons.prems(2) by (intro step) (simp add: st)
    ultimately show ?thesis
      unfolding r st by simp
  qed
qed

lemma scan_rows_total:
  assumes "\<forall>(j, row) \<in> set rows. c < length row"
  shows "\<exists>st'. scan_rows nm t c rows st = Inr st' \<and> fst st \<le> fst st'"
  using assms
proof (induction rows arbitrary: st)
  case Nil
  then show ?case by simp
next
  case (Cons r rows)
  obtain j row where r: "r = (j, row)" by (cases r)
  obtain bs bv where st: "st = (bs, bv)" by (cases st)
  have cols: "\<forall>(j, row) \<in> set rows. c < length row"
    using Cons.prems by simp
  have c: "c < length row"
    using Cons.prems(1) by (simp add: r)
  note step = Cons.IH [OF cols]
  show ?case
  proof (cases "t \<le> j \<and> (\<exists>x. candidate_score nm row = Some x \<and> bs < x)")
    case True
    then obtain x where x: "candidate_score nm row = Some x" "bs < x" by blast
    obtain st' where "scan_rows nm t c rows (x, Some (row ! c)) = Inr st'" "x \<le> fst st'"
      using step [of "(x, Some (row ! c))"] by auto
    with True x c show ?thesis
      unfolding r st by (simp add: row_get_Inr)
  next
    case False
    then have "scan_rows nm t c ((j, row) # rows) (bs, bv) = scan_rows nm t c rows (bs, bv)"
      by (auto split: option.splits)
    with step [of "(bs, bv)"] show ?thesis
      unfolding r st by simp
  qed
qed

lemma scan_rows_best:
  assumes cols: "\<forall>(j, row) \<in> set before. c < length row" and c: "c < length row"
    and i: "t \<le> i" and cand: "candidate_score nm row = Some s" and st: "fst st < s"
    and before: "\<forall>(j, row) \<in> set before. t \<le> j \<longrightarrow> (\<forall>x. candidate_score nm row = Some x \<longrightarrow> x < s)"
    and after: "\<forall>(j, row) \<in> set after. t \<le> j \<longrightarrow> (\<forall>x. candidate_score nm row = Some x \<longrightarrow> x \<le> s)"
  shows "scan_rows nm t c (before @ (i, row) # after) st = Inr (s, Some (row ! c))"
proof -
  obtain st1 where st1: "scan_rows nm t c before st = Inr st1" "fst st1 < s"
    using scan_rows_below [OF cols st before] by blast
  obtain bs bv where b: "st1 = (bs, bv)" by (cases st1)
  have "scan_rows nm t c after (s, Some (row ! c)) = Inr (s, Some (row ! c))"
    using after by (intro scan_rows_keep) simp
  then have "scan_rows nm t c ((i, row) # after) st1 = Inr (s, Some (row ! c))"
    using i cand st1(2) c unfolding b by (simp add: row_get_Inr)
  then show ?thesis
    by (simp add: scan_rows_append st1(1))
qed

lemma scan_rows_at_least:
  assumes cols: "\<forall>(j, row) \<in> set rows. c < length row"
    and mem: "(i, row) \<in> set rows" and i: "t \<le> i" and cand: "candidate_score nm row = Some s"
  shows "\<exists>st'. scan_rows nm t c rows st = Inr st' \<and> s \<le> fst st'"
proof -
  from mem obtain before after where rows: "rows = before @ (i, row) # after"
    by (auto simp: in_set_conv_decomp)
  have cb: "\<forall>(j, row) \<in> set before. c < length row"
    and ca: "\<forall>(j, row) \<in> set ((i, row) # after). c < length row"
    using cols unfolding rows by auto
  have c: "c < length row" using ca by simp
  obtain st1 where st1: "scan_rows nm t c before st = Inr st1"
    using scan_rows_total [OF cb] by blast
  obtain bs bv where b: "st1 = (bs, bv)" by (cases st1)
  have ca': "\<forall>(j, row) \<in> set after. c < length row"
    using ca by simp
  show ?thesis
  proof (cases "bs < s")
    case True
    obtain st' where "scan_rows nm t c after (s, Some (row ! c)) = Inr st'" "s \<le> fst st'"
      using scan_rows_total [OF ca', of nm t "(s, Some (row ! c))"] by auto
    with True i cand c show ?thesis
      unfolding rows by (simp add: scan_rows_append st1 b row_get_Inr)
  next
    case False
    obtain st' where "scan_rows nm t c after (bs, bv) = Inr st'" "bs \<le> fst st'"
      using scan_rows_total [OF ca', of nm t "(bs, bv)"] by auto
    with False i cand show ?thesis
      unfolding rows by (simp add: scan_rows_append st1 b)
  qed
qed

lemma metric_loop_lookup:
  assumes "distinct ms"
    and "\<forall>m \<in> set ms. \<exists>st. scan_rows (lower m) t c (enumerate 0 df) (-1, None) = Inr st"
  shows "\<exists>res. metric_loop ms df t c mtv = Inr res
     \<and> (\<forall>m st. scan_rows (lower m) t c (enumerate 0 df) (-1, None) = Inr st \<longrightarrow>
           res m = (if m \<in> set ms \<and> fst st > -1 then Some (snd st) else mtv m))"
  using assms
proof (induction ms arbitrary: mtv)
  case Nil
  show ?case by simp
next
  case (Cons a ms)
  obtain bs bv where a: "scan_rows (lower a) t c (enumerate 0 df) (-1, None) = Inr (bs, bv)"
    using Cons.prems(2) by fastforce
  let ?mtv = "if bs > -1 then mtv(a \<mapsto> bv) else mtv"
  have step: "metric_loop (a # ms) df t c mtv = metric_loop ms df t c ?mtv"
    by (simp add: a)
  have d: "distinct ms" and na: "a \<notin> set ms"
    using Cons.prems(1) by simp_all
  have scans: "\<forall>m \<in> set ms. \<exists>st. scan_rows (lower m) t c (enumerate 0 df) (-1, None) = Inr st"
    using Cons.prems(2) by simp
  obtain res where res: "metric_loop ms df t c ?mtv = Inr res"
    and look: "\<And>m st. scan_rows (lower m) t c (enumerate 0 df) (-1, None) = Inr st \<Longrightarrow>
           res m = (if m \<in> set ms \<and> fst st > -1 then Some (snd st) else ?mtv m)"
    using Cons.IH [OF d scans, of ?mtv] by blast
  have "res m = (if m \<in> set (a # ms) \<and> fst st > -1 then Some (snd st) else mtv m)"
    if "scan_rows (lower m) t c (enumerate 0 df) (-1, None) = Inr st" for m st
  proof (cases "m = a")
    case True
    with that a have "st = (bs, bv)" by simp
    with look [OF that] True na show ?thesis by simp
  next
    case False
    with look [OF that] show ?thesis by simp
  qed
  with step res show ?case by simp
qed

lemma enumerate_split:
  "i < length df \<Longrightarrow>
     enumerate 0 df = enumerate 0 (take i df) @ (i, df ! i) # enumerate (Suc i) (drop (Suc i) df)"
proof -
  assume i: "i < length df"
  then have "df = take i df @ df ! i # drop (Suc i) df"
    by (rule id_take_nth_drop)
  then have "enumerate 0 df = enumerate 0 (take i df @ df ! i # drop (Suc i) df)"
    by simp
  also have "\<dots> = enumerate 0 (take i df) @ (i, df ! i) # enumerate (Suc i) (drop (Suc i) df)"
    using i by (simp add: enumerate_append_eq)
  finally show ?thesis .
qed

lemma enumerate_cols:
  "\<forall>row \<in> set df. c < length row \<Longrightarrow> \<forall>(j, row) \<in> set (enumerate n df). c < length row"
  by (auto simp: in_set_enumerate_eq)

lemma metrics_distinct: "distinct metrics"
  by (simp add: metrics_def)

lemma get_metrics_from_df_lookup:
  assumes "\<forall>row \<in> set df. c < length row"
  shows "\<exists>res. get_metrics_from_df df t c = Inr res
     \<and> (\<forall>m st. scan_rows (lower m) t c (enumerate 0 df) (-1, None) = Inr st \<longrightarrow>
           res m = (if m \<in> set metrics \<and> fst st > -1 then Some (snd st) else None))"
proof -
  have "\<forall>m \<in> set metrics. \<exists>st. scan_rows (lower m) t c (enumerate 0 df) (-1, None) = Inr st"
    using scan_rows_total [OF enumerate_cols [OF assms]] by blast
  then show ?thesis
    unfolding get_metrics_from_df_def
    using metric_loop_lookup [OF metrics_distinct, of t c df Map.empty] by simp
qed

lemma scan_rows_candidate:
  assumes cols: "\<forall>row \<in> set df. c < length row"
    and i: "t \<le> i" "i < length df" and cand: "candidate_score nm (df ! i) = Some s"
  shows "\<exists>st. scan_rows nm t c (enumerate 0 df) (-1, None) = Inr st \<and> s \<le> fst st"
proof -
  have "(i, df ! i) \<in> set (enumerate 0 df)"
    using i(2) by (simp add: in_set_enumerate_eq)
  then show ?thesis
    using enumerate_cols [OF cols] i(1) cand by (intro scan_rows_at_least) auto
qed

lemma scan_rows_selected:
  assumes cols: "\<forall>row \<in> set df. c < length row"
    and i: "t \<le> i" "i < length df" and cand: "candidate_score nm (df ! i) = Some s"
    and s: "-1 < s"
    and before: "\<And>j x. t \<le> j \<Longrightarrow> j < i \<Longrightarrow> candidate_score nm (df ! j) = Some x \<Longrightarrow> x < s"
    and after: "\<And>j x. i < j \<Longrightarrow> j < length df \<Longrightarrow> candidate_score nm (df ! j) = Some x \<Longrightarrow> x \<le> s"
  shows "scan_rows nm t c (enumerate 0 df) (-1, None) = Inr (s, Some (df ! i ! c))"
proof -
  have split: "enumerate 0 df =
      enumerate 0 (take i df) @ (i, df ! i) # enumerate (Suc i) (drop (Suc i) df)"
    using i(2) by (rule enumerate_split)
  have cb: "\<forall>(j, row) \<in> set (enumerate 0 (take i df)). c < length row"
    using cols by (intro enumerate_cols) (auto dest: in_set_takeD)
  have c: "c < length (df ! i)"
    using cols i(2) by simp
  have b: "\<forall>(j, row) \<in> set (enumerate 0 (take i df)).
      t \<le> j \<longrightarrow> (\<forall>x. candidate_score nm row = Some x \<longrightarrow> x < s)"
    using before by (auto simp: in_set_enumerate_eq)
  have a: "\<forall>(j, row) \<in> set (enumerate (Suc i) (drop (Suc i) df)).
      t \<le> j \<longrightarrow> (\<forall>x. candidate_score nm row = Some x \<longrightarrow> x \<le> s)"
  proof (clarify)
    fix j row x
    assume mem: "(j, row) \<in> set (enumerate (Suc i) (drop (Suc i) df))"
      and x: "candidate_score nm row = Some x"
    from mem have j: "Suc i \<le> j \<and> j < length (drop (Suc i) df) + Suc i
        \<and> drop (Suc i) df ! (j - Suc i) = row"
      by (simp only: in_set_enumerate_eq fst_conv snd_conv)
    then have "i < j" and jl: "j < length df"
      by auto
    moreover from j jl have "row = df ! j"
      by (auto simp: nth_drop)
    ultimately have "row = df ! j" "i < j" "j < length df"
      by simp_all
    with x show "x \<le> s"
      using after [of j x] by simp
  qed
  show ?thesis
    unfolding split using cb c i(1) cand _ b a by (rule scan_rows_best) (simp add: s)
qed

lemma candidate_score_upper: "candidate_score nm row = Some x \<Longrightarrow> x \<le> 100"
  by (auto simp: candidate_score_def Let_def score_upper split: if_splits)

lemma tangible_only_text:
  "lower (row_text (tangible_only ! 0)) = ''tangible book value per share 55.10''"
  unfolding tangible_only_def by code_simp

lemma tangible_only_others:
  "candidate_score (lower ''CET1 Capital Ratio'') (tangible_only ! 0) = None"
  "candidate_score (lower ''Net income'') (tangible_only ! 0) = None"
  "candidate_score (lower ''Revenues'') (tangible_only ! 0) = None"
  unfolding tangible_only_def by code_simp+

lemma metrics_members:
  "''Tangible book value per share'' \<in> set metrics" "''Book value per share'' \<in> set metrics"
  by (simp_all add: metrics_def)

lemma tangible_only_result:
  "get_metrics_from_df tangible_only 0 1 =
     Inr [''Tangible book value per share'' \<mapsto> Some (Text ''55.10''),
          ''Book value per share'' \<mapsto> Some (Text ''55.10'')]"
proof -
  note scores = tangible_row_scores [OF tangible_only_text]
  have rows: "enumerate 0 tangible_only = [(0, tangible_only ! 0)]"
    by (simp add: tangible_only_def)
  have get: "row_get (tangible_only ! 0) (Suc 0) = Inr (Text ''55.10'')"
    by (simp add: tangible_only_def row_get_def)
  show ?thesis
    unfolding get_metrics_from_df_def metrics_def
    by (simp add: rows scores tangible_only_others get)
qed

text \<open>
  Claim C2, as stated, fails: in the sheet whose only row has the text
  \<^verbatim>\<open>tangible book value per share 55.10\<close> the matcher stores that row's cell for the metric
  Book value per share as well as for Tangible book value per share.
\<close>

theorem tangible_row_selected_for_book_value:
  "lower (row_text (tangible_only ! 0)) = ''tangible book value per share 55.10''
   \<and> get_metrics_from_df tangible_only 0 1 =
       Inr [''Tangible book value per share'' \<mapsto> Some (Text ''55.10''),
            ''Book value per share'' \<mapsto> Some (Text ''55.10'')]"
  using tangible_only_text tangible_only_result by simp

text \<open>
  Claim C2, amended.  In every sheet in which a row at or after the start index has the
  joined, lowercased text \<^verbatim>\<open>tangible book value per share 55.10\<close> (and the target column
  exists in every row), the row passes the containment test for both metrics, with score
  100 for Tangible book value per share and 2000/29 for Book value per share, and both
  metrics get a value.  The row's target cell is the value of Tangible book value per
  share unless an earlier row scores 100 for it, and it is the value of Book value per
  share unless an earlier row scores at least 2000/29 or a later row scores more.
\<close>

theorem tangible_row_candidate_for_both_metrics:
  assumes "text_idx \<le> i" and "i < length df"
    and "lower (row_text (df ! i)) = ''tangible book value per share 55.10''"
    and "\<forall>row \<in> set df. column_index < length row"
  shows "candidate_score (lower ''Tangible book value per share'') (df ! i) = Some 100
    \<and> candidate_score (lower ''Book value per share'') (df ! i) = Some (2000 / 29)
    \<and> (\<exists>metric_to_val. get_metrics_from_df df text_idx column_index = Inr metric_to_val
         \<and> metric_to_val ''Tangible book value per share'' \<noteq> None
         \<and> metric_to_val ''Book value per share'' \<noteq> None
         \<and> ((\<forall>j. text_idx \<le> j \<and> j < i \<longrightarrow>
                 candidate_score (lower ''Tangible book value per share'') (df ! j) \<noteq> Some 100)
              \<longrightarrow> metric_to_val ''Tangible book value per share'' = Some (Some (df ! i ! column_index)))
         \<and> ((\<forall>j x. text_idx \<le> j \<and> j < length df \<and> j \<noteq> i
                   \<and> candidate_score (lower ''Book value per share'') (df ! j) = Some x
                 \<longrightarrow> (if j < i then x < 2000 / 29 else x \<le> 2000 / 29))
              \<longrightarrow> metric_to_val ''Book value per share'' = Some (Some (df ! i ! column_index))))"
proof -
  let ?T = "''Tangible book value per share''" and ?B = "''Book value per share''"
  note scores = tangible_row_scores [OF assms(3)]
  obtain res where res: "get_metrics_from_df df text_idx column_index = Inr res"
    and look: "\<And>m st. scan_rows (lower m) text_idx column_index (enumerate 0 df) (-1, None) = Inr st \<Longrightarrow>
           res m = (if m \<in> set metrics \<and> fst st > -1 then Some (snd st) else None)"
    using get_metrics_from_df_lookup [OF assms(4), of text_idx] by blast
  have t: "res ?T \<noteq> None"
  proof -
    obtain st where "scan_rows (lower ?T) text_idx column_index (enumerate 0 df) (-1, None) = Inr st"
      and "100 \<le> fst st"
      using scan_rows_candidate [OF assms(4) assms(1,2) scores(1)] by blast
    then show ?thesis
      using look [of ?T st] metrics_members(1) by simp
  qed
  have b: "res ?B \<noteq> None"
  proof -
    obtain st where "scan_rows (lower ?B) text_idx column_index (enumerate 0 df) (-1, None) = Inr st"
      and "2000 / 29 \<le> fst st"
      using scan_rows_candidate [OF assms(4) assms(1,2) scores(2)] by blast
    then show ?thesis
      using look [of ?B st] metrics_members(2) by simp
  qed
  have ts: "res ?T = Some (Some (df ! i ! column_index))"
    if first: "\<forall>j. text_idx \<le> j \<and> j < i \<longrightarrow> candidate_score (lower ?T) (df ! j) \<noteq> Some 100"
  proof -
    have "scan_rows (lower ?T) text_idx column_index (enumerate 0 df) (-1, None) =
        Inr (100, Some (df ! i ! column_index))"
    proof (rule scan_rows_selected [OF assms(4) assms(1,2) scores(1)])
      show "- 1 < (100 :: real)" by simp
    next
      fix j x
      assume "text_idx \<le> j" "j < i" and x: "candidate_score (lower ?T) (df ! j) = Some x"
      with first have "x \<noteq> 100" by auto
      moreover from x have "x \<le> 100" by (rule candidate_score_upper)
      ultimately show "x < 100" by simp
    next
      fix j x
      assume "candidate_score (lower ?T) (df ! j) = Some x"
      then show "x \<le> 100" by (rule candidate_score_upper)
    qed
    then show ?thesis
      using look [of ?T "(100, Some (df ! i ! column_index))"] metrics_members(1) by simp
  qed
  have bs: "res ?B = Some (Some (df ! i ! column_index))"
    if best: "\<forall>j x. text_idx \<le> j \<and> j < length df \<and> j \<noteq> i
                   \<and> candidate_score (lower ?B) (df ! j) = Some x
                 \<longrightarrow> (if j < i then x < 2000 / 29 else x \<le> 2000 / 29)"
  proof -
    have "scan_rows (lower ?B) text_idx column_index (enumerate 0 df) (-1, None) =
        Inr (2000 / 29, Some (df ! i ! column_index))"
    proof (rule scan_rows_selected [OF assms(4) assms(1,2) scores(2)])
      show "- 1 < (2000 / 29 :: real)" by simp
    next
      fix j x
      assume j: "text_idx \<le> j" "j < i" "candidate_score (lower ?B) (df ! j) = Some x"
      from j(2) assms(2) have "j < length df" "j \<noteq> i"
        by simp_all
      with j have "if j < i then x < 2000 / 29 else x \<le> 2000 / 29"
        using best [THEN spec, THEN spec, of j x] by simp
      with j(2) show "x < 2000 / 29"
        by simp
    next
      fix j x
      assume j: "i < j" "j < length df" "candidate_score (lower ?B) (df ! j) = Some x"
      from j(1) assms(1) have "text_idx \<le> j" "j \<noteq> i"
        by simp_all
      with j have "if j < i then x < 2000 / 29 else x \<le> 2000 / 29"
        using best [THEN spec, THEN spec, of j x] by simp
      with j(1) show "x \<le> 2000 / 29"
        by simp
    qed
    then show ?thesis
      using look [of ?B "(2000 / 29, Some (df ! i ! column_index))"] metrics_members(2) by simp
  qed
  from scores res t b ts bs show ?thesis
    by blast
qed

theorem tangible_row_candidate_for_both_metrics_witness:
  "\<exists>metric_to_val. get_metrics_from_df tangible_only 0 1 = Inr metric_to_val
     \<and> metric_to_val ''Book value per share'' = Some (Some (Text ''55.10''))"
proof -
  have "(0::nat) \<le> 0" and "0 < length tangible_only"
    and "\<forall>row \<in> set tangible_only. 1 < length row"
    by (simp_all add: tangible_only_def)
  from tangible_row_candidate_for_both_metrics [OF this(1,2) tangible_only_text this(3)]
  obtain metric_to_val where "get_metrics_from_df tangible_only 0 1 = Inr metric_to_val"
    and "(\<forall>j x. 0 \<le> j \<and> j < length tangible_only \<and> j \<noteq> 0
                   \<and> candidate_score (lower ''Book value per share'') (tangible_only ! j) = Some x
                 \<longrightarrow> (if j < 0 then x < 2000 / 29 else x \<le> 2000 / 29))
              \<longrightarrow> metric_to_val ''Book value per share'' = Some (Some (tangible_only ! 0 ! 1))"
    by blast
  moreover have "length tangible_only = 1" and "tangible_only ! 0 ! 1 = Text ''55.10''"
    by (simp_all add: tangible_only_def)
  ultimately show ?thesis
    by auto
qed

end
